theory Spec2Isabelle
  imports Complex_Main "HOL-Library.List_Lexorder" "HOL-Library.Char_ord"
begin

section \<open>Data model of the committee ledger\<close>

text \<open>
  The ledger engine is the hook \<open>useCommitteeData\<close>. Its entities are plain objects whose
  identifiers are strings; JavaScript compares strings with \<open><\<close> lexicographically by code
  unit, which is the order of \<open>List_Lexorder\<close> over \<open>Char_ord\<close> on the ASCII identifiers
  that \<open>uuidv4\<close> produces. The field \<open>pairId\<close> is optional in the source
  (\<open>pairId?: string\<close>), so it is a \<open>string option\<close>, with \<open>None\<close> for \<open>undefined\<close>.
  Amounts are JavaScript numbers; no property below computes with them, and they are
  integers here. Fields that several entity types share carry the entity's initial.
\<close>

datatype ShareType = FULL | HALF

record Committee =
  c_id :: string
  c_name :: string
  monthlyAmount :: int
  startDate :: string
  durationMonths :: nat
  allowHalfShare :: bool

record Member =
  m_id :: string
  m_committeeId :: string
  m_name :: string
  phone :: string
  shareType :: ShareType
  pairId :: "string option"

record Payment =
  p_id :: string
  p_committeeId :: string
  memberIdOrPairId :: string
  p_monthYear :: string
  p_amount :: int
  datePaid :: string
  lateDays :: int
  demeritPoints :: int

record Draw =
  d_id :: string
  d_committeeId :: string
  d_monthYear :: string
  winnerIdOrPairId :: string
  payoutDate :: string
  d_amount :: int

record AppState =
  committees :: "Committee list"
  members :: "Member list"
  payments :: "Payment list"
  draws :: "Draw list"

text \<open>The argument of \<open>updateCommittee\<close>: a committee without \<open>durationMonths\<close>.\<close>

record CommitteeUpdate =
  u_id :: string
  u_name :: string
  u_monthlyAmount :: int
  u_startDate :: string
  u_allowHalfShare :: bool

text \<open>The hook's two pieces of React state: the snapshot and the undo history.\<close>

record Engine =
  state :: AppState
  history :: "AppState list"

definition MAX_HISTORY_SIZE :: nat where
  "MAX_HISTORY_SIZE = 20"

definition emptyState :: AppState where
  "emptyState = \<lparr>committees = [], members = [], payments = [], draws = []\<rparr>"

section \<open>JavaScript helpers\<close>

text \<open>A string-valued optional field in a condition: \<open>undefined\<close> and \<open>''\<close> are falsy.\<close>

definition truthy :: "string option \<Rightarrow> bool" where
  "truthy p = (case p of None \<Rightarrow> False | Some s \<Rightarrow> s \<noteq> [])"

text \<open>\<open>Array.prototype.findIndex\<close>, with \<open>None\<close> for the result \<open>-1\<close>.\<close>

fun findIndex :: "('a \<Rightarrow> bool) \<Rightarrow> 'a list \<Rightarrow> nat option" where
  "findIndex P [] = None"
| "findIndex P (x # xs) = (if P x then Some 0 else map_option Suc (findIndex P xs))"

text \<open>
  \<open>Array.prototype.some\<close> is \<open>list_ex\<close>, \<open>filter\<close> is \<open>filter\<close>, \<open>find\<close> is \<open>List.find\<close>,
  \<open>[a, ...rest]\<close> is \<open>a # rest\<close>, \<open>slice(0, n)\<close> is \<open>take n\<close>.
\<close>

section \<open>Duration derivation\<close>

text \<open>
  \<open>calculateDuration\<close> groups the half-share members in a \<open>Record<string, Member[]>\<close> built
  by \<open>reduce\<close>. The record is an association list in insertion order here; \<open>groupPush\<close> is
  the loop body \<open>if (!acc[k]) acc[k] = []; acc[k].push(m)\<close>. Only the number of groups of
  length two is read from it, so the order of \<open>Object.values\<close> does not matter.

  The record is a plain object. Under a key that names a member of \<open>Object.prototype\<close>
  the loop body finds the inherited member, which is truthy and has no \<open>push\<close>, and the
  call raises a \<open>TypeError\<close>; the association list has no such case. \<open>objectPrototypeKeys\<close>
  lists these names, and \<open>recordKey\<close> holds of the other non-empty strings: the keys
  under which the association list is the record. The identifiers the engine makes are
  the strings of \<open>uuidv4()\<close>, which are record keys.
\<close>

definition objectPrototypeKeys :: "string list" where
  "objectPrototypeKeys =
     [''constructor'', ''__proto__'', ''hasOwnProperty'', ''isPrototypeOf'',
      ''propertyIsEnumerable'', ''toLocaleString'', ''toString'', ''valueOf'',
      ''__defineGetter__'', ''__defineSetter__'', ''__lookupGetter__'', ''__lookupSetter__'']"

definition recordKey :: "string \<Rightarrow> bool" where
  "recordKey k = (k \<noteq> [] \<and> k \<notin> set objectPrototypeKeys)"

fun groupPush :: "(string \<times> Member list) list \<Rightarrow> string \<Rightarrow> Member \<Rightarrow> (string \<times> Member list) list" where
  "groupPush [] k m = [(k, [m])]"
| "groupPush ((k', g) # acc) k m =
     (if k' = k then (k', g @ [m]) # acc else (k', g) # groupPush acc k m)"

definition membersByPairId :: "Member list \<Rightarrow> (string \<times> Member list) list" where
  "membersByPairId halfShareMembers =
     foldl (\<lambda>acc member.
             if truthy (pairId member) then groupPush acc (the (pairId member)) member else acc)
       [] halfShareMembers"

definition calculateDuration :: "string \<Rightarrow> Member list \<Rightarrow> nat" where
  "calculateDuration committeeId ms =
     (let committeeMembers = filter (\<lambda>m. m_committeeId m = committeeId) ms;
          fullShareCount = length (filter (\<lambda>m. shareType m = FULL) committeeMembers);
          halfShareMembers = filter (\<lambda>m. shareType m = HALF) committeeMembers
      in if length halfShareMembers < 2 then fullShareCount
         else fullShareCount
              + length (filter (\<lambda>group. length group = 2)
                         (map snd (membersByPairId halfShareMembers))))"

section \<open>Snapshot and history\<close>

text \<open>
  \<open>updateStateAndHistory\<close> takes the updater of a mutation. It pushes the old snapshot on
  the history whatever the updater returns, and cuts the history to its first
  \<open>MAX_HISTORY_SIZE\<close> entries. React's two state cells are the two fields of the engine,
  and every updater runs once per call.
\<close>

definition updateStateAndHistory :: "(AppState \<Rightarrow> AppState) \<Rightarrow> Engine \<Rightarrow> Engine" where
  "updateStateAndHistory newState e =
     (let oldState = state e;
          updatedState = newState oldState;
          newHistory = oldState # history e
      in \<lparr>state = updatedState,
          history = (if length newHistory > MAX_HISTORY_SIZE
                     then take MAX_HISTORY_SIZE newHistory else newHistory)\<rparr>)"

definition undo :: "Engine \<Rightarrow> Engine" where
  "undo e = (case history e of
               [] \<Rightarrow> e
             | lastState # rest \<Rightarrow> \<lparr>state = lastState, history = rest\<rparr>)"

definition canUndo :: "Engine \<Rightarrow> bool" where
  "canUndo e = (length (history e) > 0)"

section \<open>Mutations\<close>

text \<open>
  Each mutation is the updater it hands to \<open>updateStateAndHistory\<close>, a function from the
  previous snapshot to the next one. The identifier drawn from \<open>uuidv4()\<close> is a parameter
  \<open>newId\<close>. \<open>alert\<close> calls have no effect on the state and are left out.
\<close>

subsection \<open>Committees\<close>

definition addCommittee_upd :: "string \<Rightarrow> CommitteeUpdate \<Rightarrow> AppState \<Rightarrow> AppState" where
  "addCommittee_upd newId committee prev =
     (let newCommittee = \<lparr>c_id = newId, c_name = u_name committee,
                           monthlyAmount = u_monthlyAmount committee,
                           startDate = u_startDate committee, durationMonths = 0,
                           allowHalfShare = u_allowHalfShare committee\<rparr>
      in prev\<lparr>committees := committees prev @ [newCommittee]\<rparr>)"

definition updateCommittee_upd :: "CommitteeUpdate \<Rightarrow> AppState \<Rightarrow> AppState" where
  "updateCommittee_upd committeeUpdate prev =
     (case find (\<lambda>c. c_id c = u_id committeeUpdate) (committees prev) of
        None \<Rightarrow> prev
      | Some existingCommittee \<Rightarrow>
          if \<not> u_allowHalfShare committeeUpdate \<and>
             list_ex (\<lambda>m. m_committeeId m = u_id committeeUpdate \<and> shareType m = HALF)
               (members prev)
          then prev
          else
            let updatedCommittee =
                  existingCommittee\<lparr>c_id := u_id committeeUpdate,
                                    c_name := u_name committeeUpdate,
                                    monthlyAmount := u_monthlyAmount committeeUpdate,
                                    startDate := u_startDate committeeUpdate,
                                    allowHalfShare := u_allowHalfShare committeeUpdate\<rparr>
            in prev\<lparr>committees :=
                       map (\<lambda>c. if c_id c = c_id updatedCommittee then updatedCommittee else c)
                         (committees prev)\<rparr>)"

definition deleteCommittee_upd :: "string \<Rightarrow> AppState \<Rightarrow> AppState" where
  "deleteCommittee_upd i prev =
     prev\<lparr>committees := filter (\<lambda>c. c_id c \<noteq> i) (committees prev),
          members := filter (\<lambda>m. m_committeeId m \<noteq> i) (members prev),
          payments := filter (\<lambda>p. p_committeeId p \<noteq> i) (payments prev),
          draws := filter (\<lambda>d. d_committeeId d \<noteq> i) (draws prev)\<rparr>"

subsection \<open>Members\<close>

text \<open>Writing the recomputed duration on the committee a member mutation names.\<close>

definition setDuration :: "string \<Rightarrow> nat \<Rightarrow> Committee list \<Rightarrow> Committee list" where
  "setDuration committeeId newDuration cs =
     map (\<lambda>c. if c_id c = committeeId then c\<lparr>durationMonths := newDuration\<rparr> else c) cs"

text \<open>
  \<open>addMember\<close>: the member list and the new member after the pairing step (the source
  assigns \<open>newMember.pairId\<close> and \<open>updatedMembers[partnerIndex]\<close> in place).
\<close>

definition addMember_pairing :: "Member \<Rightarrow> Member list \<Rightarrow> Member list \<times> Member" where
  "addMember_pairing newMember updatedMembers =
     (if shareType newMember = HALF then
        (if truthy (pairId newMember) then
           (let partnerId = the (pairId newMember) in
            case findIndex (\<lambda>m. m_id m = partnerId) updatedMembers of
              Some partnerIndex \<Rightarrow>
                let commonPairId = (if m_id newMember < partnerId then m_id newMember else partnerId)
                in (updatedMembers[partnerIndex :=
                      (updatedMembers ! partnerIndex)\<lparr>pairId := Some commonPairId\<rparr>],
                    newMember\<lparr>pairId := Some commonPairId\<rparr>)
            | None \<Rightarrow> (updatedMembers, newMember\<lparr>pairId := Some (m_id newMember)\<rparr>))
         else (updatedMembers, newMember\<lparr>pairId := Some (m_id newMember)\<rparr>))
      else (updatedMembers, newMember))"

definition addMember_upd :: "string \<Rightarrow> Member \<Rightarrow> AppState \<Rightarrow> AppState" where
  "addMember_upd newId member prev =
     (let (paired, newMember) = addMember_pairing (member\<lparr>m_id := newId\<rparr>) (members prev);
          updatedMembers = paired @ [newMember];
          newDuration = calculateDuration (m_committeeId newMember) updatedMembers
      in prev\<lparr>members := updatedMembers,
              committees := setDuration (m_committeeId newMember) newDuration (committees prev)\<rparr>)"

text \<open>
  \<open>updateMember\<close>: the old partner is looked up in the previous snapshot, reset to its own
  identifier, then the requested partner is linked, then the edited member is stored.
\<close>

definition resetPartner :: "Member option \<Rightarrow> Member list \<Rightarrow> Member list" where
  "resetPartner partner ms =
     (case partner of
        None \<Rightarrow> ms
      | Some p \<Rightarrow>
          (case findIndex (\<lambda>m. m_id m = m_id p) ms of
             Some partnerIndex \<Rightarrow> ms[partnerIndex := (ms ! partnerIndex)\<lparr>pairId := Some (m_id p)\<rparr>]
           | None \<Rightarrow> ms))"

definition partnerOf :: "Member \<Rightarrow> Member list \<Rightarrow> Member option" where
  "partnerOf original ms =
     (if shareType original = HALF
      then find (\<lambda>m. pairId m = pairId original \<and> m_id m \<noteq> m_id original) ms
      else None)"

definition updateMember_members :: "Member \<Rightarrow> Member \<Rightarrow> Member list \<Rightarrow> Member list \<times> Member" where
  "updateMember_members updatedMember originalMember ms =
     (let newPartnerIdFromModal = (case pairId updatedMember of None \<Rightarrow> [] | Some s \<Rightarrow> s);
          membersAfterReset = resetPartner (partnerOf originalMember ms) ms;
          (membersAfterLink, updatedMember') =
            (if newPartnerIdFromModal \<noteq> [] then
               (case findIndex (\<lambda>m. m_id m = newPartnerIdFromModal) membersAfterReset of
                  Some newPartnerIndex \<Rightarrow>
                    let commonPairId = (if m_id updatedMember < newPartnerIdFromModal
                                        then m_id updatedMember else newPartnerIdFromModal)
                    in (membersAfterReset[newPartnerIndex :=
                          (membersAfterReset ! newPartnerIndex)\<lparr>pairId := Some commonPairId\<rparr>],
                        updatedMember\<lparr>pairId := Some commonPairId\<rparr>)
                | None \<Rightarrow> (membersAfterReset, updatedMember\<lparr>pairId := Some (m_id updatedMember)\<rparr>))
             else (membersAfterReset, updatedMember\<lparr>pairId := Some (m_id updatedMember)\<rparr>))
      in (case findIndex (\<lambda>m. m_id m = m_id updatedMember') membersAfterLink of
            Some finalMemberIndex \<Rightarrow> (membersAfterLink[finalMemberIndex := updatedMember'], updatedMember')
          | None \<Rightarrow> (membersAfterLink, updatedMember')))"

definition updateMember_upd :: "Member \<Rightarrow> AppState \<Rightarrow> AppState" where
  "updateMember_upd updatedMember prev =
     (case find (\<lambda>m. m_id m = m_id updatedMember) (members prev) of
        None \<Rightarrow> prev
      | Some originalMember \<Rightarrow>
          let (membersAfterUpdate, updatedMember') =
                updateMember_members updatedMember originalMember (members prev);
              newDuration = calculateDuration (m_committeeId updatedMember') membersAfterUpdate
          in prev\<lparr>members := membersAfterUpdate,
                  committees := setDuration (m_committeeId updatedMember') newDuration
                                  (committees prev)\<rparr>)"

text \<open>
  \<open>deleteMember\<close>: \<open>deleteMember_members\<close> is the member list after the removal and the
  partner's reset, on which the guard recomputes the duration.
\<close>

definition deleteMember_members :: "Member \<Rightarrow> Member list \<Rightarrow> Member list" where
  "deleteMember_members memberToDelete ms =
     resetPartner (partnerOf memberToDelete ms) (filter (\<lambda>m. m_id m \<noteq> m_id memberToDelete) ms)"

definition deleteMember_upd :: "string \<Rightarrow> AppState \<Rightarrow> AppState" where
  "deleteMember_upd i prev =
     (case find (\<lambda>m. m_id m = i) (members prev) of
        None \<Rightarrow> prev
      | Some memberToDelete \<Rightarrow>
          let newMembers = deleteMember_members memberToDelete (members prev);
              newDuration = calculateDuration (m_committeeId memberToDelete) newMembers;
              committeeDraws = filter (\<lambda>d. d_committeeId d = m_committeeId memberToDelete) (draws prev)
          in if newDuration < length committeeDraws then prev
             else prev\<lparr>members := newMembers,
                       committees := setDuration (m_committeeId memberToDelete) newDuration
                                       (committees prev)\<rparr>)"

subsection \<open>Numbers\<close>

text \<open>
  A JavaScript number is a double: \<open>NaN\<close>, an infinity, or a finite value, which is held
  here as the rational number it denotes. The two zeros are one value: the program
  subtracts 1 from these numbers and hands them to \<open>Date.UTC\<close>, which takes their integer
  parts, and neither tells the zeros apart.

  \<open>roundToDouble x\<close> is the double nearest to \<open>x\<close>, a tie going to the even significand.
  With \<open>2^e \<le> |x| < 2^(e+1)\<close> the doubles around \<open>x\<close> are the multiples of \<open>2^(e-52)\<close>, and
  of \<open>2^(-1074)\<close> where \<open>e\<close> is below \<open>-1022\<close>; a result of \<open>2^1024\<close> is an infinity.
  \<open>bitLength n\<close> is the number of binary digits of \<open>n\<close>, and \<open>floorLog2 x\<close> the \<open>e\<close> above,
  for a positive \<open>x\<close>.
\<close>

datatype Number = NaN | Finite rat | Infinity | NegInfinity

fun bitLength :: "nat \<Rightarrow> nat" where
  "bitLength n = (if n = 0 then 0 else Suc (bitLength (n div 2)))"

declare bitLength.simps [simp del]

definition pow2 :: "int \<Rightarrow> rat" where
  "pow2 k = (if 0 \<le> k then 2 ^ nat k else 1 / 2 ^ nat (- k))"

definition pow10 :: "int \<Rightarrow> rat" where
  "pow10 k = (if 0 \<le> k then 10 ^ nat k else 1 / 10 ^ nat (- k))"

definition floorLog2 :: "rat \<Rightarrow> int" where
  "floorLog2 x =
     (if 1 \<le> x then int (bitLength (nat \<lfloor>x\<rfloor>)) - 1
      else let k = int (bitLength (nat \<lfloor>1 / x\<rfloor>)) - 1
           in if x * 2 ^ nat k = 1 then - k else - k - 1)"

definition roundTiesToEven :: "rat \<Rightarrow> int" where
  "roundTiesToEven x =
     (let f = \<lfloor>x\<rfloor>; d = x - of_int f
      in if d < 1 / 2 then f else if 1 / 2 < d then f + 1 else if even f then f else f + 1)"

definition roundToDouble :: "rat \<Rightarrow> Number" where
  "roundToDouble x =
     (if x = 0 then Finite 0
      else let e = max (floorLog2 \<bar>x\<bar>) (- 1022);
               ulp = pow2 (e - 52);
               r = of_int (roundTiesToEven (\<bar>x\<bar> / ulp)) * ulp
           in if 2 ^ 1024 \<le> r then (if 0 < x then Infinity else NegInfinity)
              else Finite (if 0 < x then r else - r))"

text \<open>Unary minus, \<open>n - 1\<close>, and \<open>ToIntegerOrInfinity\<close> on a finite value.\<close>

definition negate :: "Number \<Rightarrow> Number" where
  "negate n = (case n of NaN \<Rightarrow> NaN | Finite x \<Rightarrow> Finite (- x) | Infinity \<Rightarrow> NegInfinity
               | NegInfinity \<Rightarrow> Infinity)"

definition minus_one :: "Number \<Rightarrow> Number" where
  "minus_one n = (case n of Finite x \<Rightarrow> roundToDouble (x - 1) | _ \<Rightarrow> n)"

definition ToIntegerOrInfinity :: "rat \<Rightarrow> int" where
  "ToIntegerOrInfinity x = (if 0 \<le> x then \<lfloor>x\<rfloor> else - \<lfloor>- x\<rfloor>)"

text \<open>
  \<open>Number\<close>, applied to a string, is \<open>StringToNumber\<close>. White space and line terminators
  are trimmed at both ends, and the empty string is 0. A literal \<open>0x\<close>, \<open>0o\<close> or \<open>0b\<close> is an
  integer in that radix. Anything else must be a decimal literal: after an optional
  sign, \<open>Infinity\<close>, or digits with an optional fraction and an optional exponent, with a
  digit before or after the point. Every other string is \<open>NaN\<close>. The value of a literal is
  rounded to the nearest double (ECMAScript lets an implementation drop the digits after
  the 20th significant one of a decimal literal; the engines round the exact value, as
  here). A string is a list of 8-bit characters, of which the white space is the codes
  9 to 13, 32 and 160.
\<close>

definition StrWhiteSpaceChar :: "char \<Rightarrow> bool" where
  "StrWhiteSpaceChar c = (of_char c \<in> {9, 10, 11, 12, 13, 32, 160 :: nat})"

definition trimString :: "string \<Rightarrow> string" where
  "trimString s = rev (dropWhile StrWhiteSpaceChar (rev (dropWhile StrWhiteSpaceChar s)))"

definition digit_of :: "char \<Rightarrow> int option" where
  "digit_of c =
     (if CHR ''0'' \<le> c \<and> c \<le> CHR ''9'' then Some (int (of_char c) - 48)
      else if CHR ''a'' \<le> c \<and> c \<le> CHR ''f'' then Some (int (of_char c) - 87)
      else if CHR ''A'' \<le> c \<and> c \<le> CHR ''F'' then Some (int (of_char c) - 55)
      else None)"

text \<open>The value of a string of digits of a radix, continuing from \<open>acc\<close>.\<close>

fun digits_value :: "int \<Rightarrow> int \<Rightarrow> string \<Rightarrow> int option" where
  "digits_value radix acc [] = Some acc"
| "digits_value radix acc (c # cs) =
     (case digit_of c of
        None \<Rightarrow> None
      | Some d \<Rightarrow> if d < radix then digits_value radix (radix * acc + d) cs else None)"

definition DecimalDigit :: "char \<Rightarrow> bool" where
  "DecimalDigit c = (CHR ''0'' \<le> c \<and> c \<le> CHR ''9'')"

text \<open>The exponent a literal ends with, 0 if it ends without one.\<close>

definition ExponentPart :: "string \<Rightarrow> int option" where
  "ExponentPart s =
     (case s of
        [] \<Rightarrow> Some 0
      | c # t \<Rightarrow>
          if c = CHR ''e'' \<or> c = CHR ''E'' then
            (case t of
               [] \<Rightarrow> None
             | d # u \<Rightarrow>
                 if d = CHR ''+'' then (if u = [] then None else digits_value 10 0 u)
                 else if d = CHR ''-'' then
                   (if u = [] then None else map_option uminus (digits_value 10 0 u))
                 else digits_value 10 0 t)
          else None)"

definition StrUnsignedDecimalLiteral :: "string \<Rightarrow> Number" where
  "StrUnsignedDecimalLiteral s =
     (if s = ''Infinity'' then Infinity
      else let intPart = takeWhile DecimalDigit s;
               afterInt = dropWhile DecimalDigit s;
               afterDot = (case afterInt of c # t \<Rightarrow> if c = CHR ''.'' then t else [] | [] \<Rightarrow> []);
               fracPart = takeWhile DecimalDigit afterDot;
               expPart = (case afterInt of
                            c # t \<Rightarrow> if c = CHR ''.'' then dropWhile DecimalDigit t else afterInt
                          | [] \<Rightarrow> [])
           in if intPart = [] \<and> fracPart = [] then NaN
              else (case (digits_value 10 0 (intPart @ fracPart), ExponentPart expPart) of
                      (Some n, Some e) \<Rightarrow>
                        roundToDouble (of_int n * pow10 (e - int (length fracPart)))
                    | _ \<Rightarrow> NaN))"

definition StrDecimalLiteral :: "string \<Rightarrow> Number" where
  "StrDecimalLiteral s =
     (case s of
        [] \<Rightarrow> NaN
      | c # t \<Rightarrow>
          if c = CHR ''+'' then StrUnsignedDecimalLiteral t
          else if c = CHR ''-'' then negate (StrUnsignedDecimalLiteral t)
          else StrUnsignedDecimalLiteral s)"

text \<open>The radix and the digits of a literal with a radix prefix.\<close>

definition NonDecimalIntegerLiteral :: "string \<Rightarrow> (int \<times> string) option" where
  "NonDecimalIntegerLiteral s =
     (case s of
        c0 # c1 # ds \<Rightarrow>
          if c0 \<noteq> CHR ''0'' then None
          else if c1 = CHR ''x'' \<or> c1 = CHR ''X'' then Some (16, ds)
          else if c1 = CHR ''o'' \<or> c1 = CHR ''O'' then Some (8, ds)
          else if c1 = CHR ''b'' \<or> c1 = CHR ''B'' then Some (2, ds)
          else None
      | _ \<Rightarrow> None)"

definition Number_js :: "string \<Rightarrow> Number" where
  "Number_js str =
     (let s = trimString str
      in if s = [] then Finite 0
         else (case NonDecimalIntegerLiteral s of
                 Some (radix, ds) \<Rightarrow>
                   (if ds = [] then NaN
                    else (case digits_value radix 0 ds of
                            Some n \<Rightarrow> roundToDouble (of_int n)
                          | None \<Rightarrow> NaN))
               | None \<Rightarrow> StrDecimalLiteral s))"

subsection \<open>Dates\<close>

text \<open>
  Time values are JavaScript numbers: milliseconds since the epoch, or \<open>NaN\<close>, which is
  \<open>None\<close> here. \<open>Date.UTC\<close> and the \<open>Date\<close> constructor follow ECMAScript's \<open>MakeFullYear\<close>,
  \<open>MakeDay\<close>, \<open>MakeDate\<close> and \<open>TimeClip\<close>: a component that is not finite gives \<open>NaN\<close>, the
  components are cut to integers, and a year from 0 to 99 means 1900 to 1999. The
  components come from tokens between dashes, so none is negative but the month index,
  which may be -1. Day numbers and time values are integers here: the time values that
  occur are whole days, multiples of \<open>msPerDay\<close> within \<open>TimeClip\<close>'s range, on which the
  sums, differences and quotients of doubles are exact, and a component too large for
  that already puts the time value outside the range.
\<close>

definition msPerDay :: int where
  "msPerDay = 1000 * 60 * 60 * 24"

fun split_dash :: "string \<Rightarrow> string list" where
  "split_dash [] = [] # []"
| "split_dash (c # cs) =
     (if c = CHR ''-'' then [] # split_dash cs
      else (case split_dash cs of w # ws \<Rightarrow> (c # w) # ws | [] \<Rightarrow> [c] # []))"

text \<open>The \<open>k\<close>-th element of a destructured array, \<open>undefined\<close> (then \<open>NaN\<close>) past its end.\<close>

definition nth_Number :: "string list \<Rightarrow> nat \<Rightarrow> Number" where
  "nth_Number parts k = (if k < length parts then Number_js (parts ! k) else NaN)"

definition DayFromYear :: "int \<Rightarrow> int" where
  "DayFromYear y =
     365 * (y - 1970) + (y - 1969) div 4 - (y - 1901) div 100 + (y - 1601) div 400"

definition InLeapYear :: "int \<Rightarrow> bool" where
  "InLeapYear y = (y mod 4 = 0 \<and> (y mod 100 \<noteq> 0 \<or> y mod 400 = 0))"

definition monthStart :: "int \<Rightarrow> int \<Rightarrow> int" where
  "monthStart y mn =
     [0, 31, 59, 90, 120, 151, 181, 212, 243, 273, 304, 334] ! nat mn
     + (if InLeapYear y \<and> 2 \<le> mn then 1 else 0)"

definition MakeDay :: "int \<Rightarrow> int \<Rightarrow> int \<Rightarrow> int" where
  "MakeDay year month date =
     (let ym = year + month div 12; mn = month mod 12
      in DayFromYear ym + monthStart ym mn + date - 1)"

definition TimeClip :: "int \<Rightarrow> int option" where
  "TimeClip t = (if \<bar>t\<bar> > 8640000000000000 then None else Some t)"

definition Date_UTC :: "Number \<Rightarrow> Number \<Rightarrow> Number \<Rightarrow> int option" where
  "Date_UTC year month date =
     (case (year, month, date) of
        (Finite y, Finite m, Finite dt) \<Rightarrow>
          (let yi = ToIntegerOrInfinity y;
               yr = (if 0 \<le> yi \<and> yi \<le> 99 then 1900 + yi else yi)
           in TimeClip (MakeDay yr (ToIntegerOrInfinity m) (ToIntegerOrInfinity dt) * msPerDay))
      | _ \<Rightarrow> None)"

definition parseDateAsUTC :: "string \<Rightarrow> int option" where
  "parseDateAsUTC dateString =
     (if dateString = [] then Some 0
      else let parts = split_dash dateString
           in Date_UTC (nth_Number parts 0) (minus_one (nth_Number parts 1)) (nth_Number parts 2))"

subsection \<open>Payments\<close>

text \<open>
  \<open>calculateDemerits\<close> returns \<open>(lateDays, demeritPoints)\<close>. A \<open>NaN\<close> difference fails
  the test \<open>timeDiff > 0\<close>. The quotient \<open>timeDiff / msPerDay\<close> is rounded up by \<open>Math.ceil\<close>.
\<close>

definition dueDate :: "string \<Rightarrow> int option" where
  "dueDate monthYear =
     (let parts = split_dash monthYear
      in Date_UTC (nth_Number parts 0) (minus_one (nth_Number parts 1)) (Finite 10))"

definition calculateDemerits :: "Payment \<Rightarrow> int \<times> int" where
  "calculateDemerits payment =
     (let lateDays =
            (case (parseDateAsUTC (datePaid payment), dueDate (p_monthYear payment)) of
               (Some paid, Some due) \<Rightarrow>
                 (let timeDiff = paid - due
                  in if timeDiff > 0 then - ((- timeDiff) div msPerDay) else 0)
             | _ \<Rightarrow> 0);
          demeritPoints = lateDays
      in (lateDays, demeritPoints))"

text \<open>
  The argument of the payment handlers has no \<open>id\<close>, \<open>lateDays\<close> or \<open>demeritPoints\<close>; the
  handlers spread it and write these three fields last, so a \<open>Payment\<close> whose three
  fields are overwritten is the same object.
\<close>

definition handleAddPayment_upd :: "string \<Rightarrow> Payment \<Rightarrow> AppState \<Rightarrow> AppState" where
  "handleAddPayment_upd newId payment prev =
     (let (l, d) = calculateDemerits payment;
          newPayment = payment\<lparr>p_id := newId, lateDays := l, demeritPoints := d\<rparr>
      in prev\<lparr>payments := payments prev @ [newPayment]\<rparr>)"

definition handleUpdatePayment_upd :: "Payment \<Rightarrow> string \<Rightarrow> AppState \<Rightarrow> AppState" where
  "handleUpdatePayment_upd updatedPayment paymentId prev =
     (let (l, d) = calculateDemerits updatedPayment;
          fullPaymentData = updatedPayment\<lparr>p_id := paymentId, lateDays := l, demeritPoints := d\<rparr>
      in prev\<lparr>payments := map (\<lambda>p. if p_id p = paymentId then fullPaymentData else p)
                               (payments prev)\<rparr>)"

definition deletePayment_upd :: "string \<Rightarrow> AppState \<Rightarrow> AppState" where
  "deletePayment_upd i prev = prev\<lparr>payments := filter (\<lambda>p. p_id p \<noteq> i) (payments prev)\<rparr>"

subsection \<open>Draws\<close>

definition handleAddDraw_upd :: "string \<Rightarrow> Draw \<Rightarrow> AppState \<Rightarrow> AppState" where
  "handleAddDraw_upd newId draw prev =
     prev\<lparr>draws := draws prev @ [draw\<lparr>d_id := newId\<rparr>]\<rparr>"

definition handleUpdateDraw_upd :: "Draw \<Rightarrow> string \<Rightarrow> AppState \<Rightarrow> AppState" where
  "handleUpdateDraw_upd updatedDraw drawId prev =
     prev\<lparr>draws := map (\<lambda>d. if d_id d = drawId then updatedDraw\<lparr>d_id := drawId\<rparr> else d)
                      (draws prev)\<rparr>"

definition deleteDraw_upd :: "string \<Rightarrow> AppState \<Rightarrow> AppState" where
  "deleteDraw_upd i prev = prev\<lparr>draws := filter (\<lambda>d. d_id d \<noteq> i) (draws prev)\<rparr>"

subsection \<open>The engine's operations\<close>

text \<open>
  The functions the hook returns. \<open>addPayment\<close> and \<open>addDraw\<close> update when they are given
  a truthy identifier and add otherwise. An \<open>Op\<close> is one call of the interface, with the
  identifier \<open>uuidv4()\<close> returns for it where the call draws one.
\<close>

definition addCommittee :: "string \<Rightarrow> CommitteeUpdate \<Rightarrow> Engine \<Rightarrow> Engine" where
  "addCommittee newId committee = updateStateAndHistory (addCommittee_upd newId committee)"

definition updateCommittee :: "CommitteeUpdate \<Rightarrow> Engine \<Rightarrow> Engine" where
  "updateCommittee committeeUpdate = updateStateAndHistory (updateCommittee_upd committeeUpdate)"

definition deleteCommittee :: "string \<Rightarrow> Engine \<Rightarrow> Engine" where
  "deleteCommittee i = updateStateAndHistory (deleteCommittee_upd i)"

definition addMember :: "string \<Rightarrow> Member \<Rightarrow> Engine \<Rightarrow> Engine" where
  "addMember newId member = updateStateAndHistory (addMember_upd newId member)"

definition updateMember :: "Member \<Rightarrow> Engine \<Rightarrow> Engine" where
  "updateMember updatedMember = updateStateAndHistory (updateMember_upd updatedMember)"

definition deleteMember :: "string \<Rightarrow> Engine \<Rightarrow> Engine" where
  "deleteMember i = updateStateAndHistory (deleteMember_upd i)"

definition addPayment :: "string \<Rightarrow> Payment \<Rightarrow> string option \<Rightarrow> Engine \<Rightarrow> Engine" where
  "addPayment newId payment paymentId =
     (if truthy paymentId
      then updateStateAndHistory (handleUpdatePayment_upd payment (the paymentId))
      else updateStateAndHistory (handleAddPayment_upd newId payment))"

definition deletePayment :: "string \<Rightarrow> Engine \<Rightarrow> Engine" where
  "deletePayment i = updateStateAndHistory (deletePayment_upd i)"

definition addDraw :: "string \<Rightarrow> Draw \<Rightarrow> string option \<Rightarrow> Engine \<Rightarrow> Engine" where
  "addDraw newId draw drawId =
     (if truthy drawId
      then updateStateAndHistory (handleUpdateDraw_upd draw (the drawId))
      else updateStateAndHistory (handleAddDraw_upd newId draw))"

definition deleteDraw :: "string \<Rightarrow> Engine \<Rightarrow> Engine" where
  "deleteDraw i = updateStateAndHistory (deleteDraw_upd i)"

datatype Op =
    AddCommittee string CommitteeUpdate
  | UpdateCommittee CommitteeUpdate
  | DeleteCommittee string
  | AddMember string Member
  | UpdateMember Member
  | DeleteMember string
  | AddPayment string Payment "string option"
  | DeletePayment string
  | AddDraw string Draw "string option"
  | DeleteDraw string

fun mutate :: "Op \<Rightarrow> Engine \<Rightarrow> Engine" where
  "mutate (AddCommittee newId c) e = addCommittee newId c e"
| "mutate (UpdateCommittee u) e = updateCommittee u e"
| "mutate (DeleteCommittee i) e = deleteCommittee i e"
| "mutate (AddMember newId m) e = addMember newId m e"
| "mutate (UpdateMember m) e = updateMember m e"
| "mutate (DeleteMember i) e = deleteMember i e"
| "mutate (AddPayment newId p pid) e = addPayment newId p pid e"
| "mutate (DeletePayment i) e = deletePayment i e"
| "mutate (AddDraw newId d did) e = addDraw newId d did e"
| "mutate (DeleteDraw i) e = deleteDraw i e"

text \<open>A sequence of calls, first call first, and \<open>n\<close> presses of undo.\<close>

fun mutations :: "Op list \<Rightarrow> Engine \<Rightarrow> Engine" where
  "mutations [] e = e"
| "mutations (op # ops) e = mutations ops (mutate op e)"

fun undos :: "nat \<Rightarrow> Engine \<Rightarrow> Engine" where
  "undos 0 e = e"
| "undos (Suc n) e = undos n (undo e)"

section \<open>Draw eligibility\<close>

text \<open>
  \<open>eligibleWinners\<close> is computed by the draw dialog from the committee, the member list
  and the draw list it is given, and the draw being edited, if any. The committee page
  hands it the members and the draws of the committee, and offers to record a draw while
  the committee has fewer draws than \<open>durationMonths\<close>. The rows of \<open>eligibleWinners\<close> are
  objects of which the dialog reads \<open>id\<close> and \<open>name\<close>. The half-share rows are the values of
  a record keyed by \<open>pairId\<close>, built as in \<open>calculateDuration\<close> (and as there, the record is
  the association list under record keys); the name of a row, which the source
  recomputes at every push, is the names of its members joined by \<open>' & '\<close>. \<open>wonIds\<close> is
  the \<open>Set\<close> of the winners of the committee's draws, and \<open>committeeWinners\<close> the list it
  is made from.

  \<open>Object.values\<close> lists the values under array indices first, in ascending numeric
  order, and then the values under the other keys in insertion order. An array index is
  a key that is the decimal notation, without leading zeros, of an integer from 0 to
  \<open>2^32 - 2\<close>.
\<close>

definition arrayIndex :: "string \<Rightarrow> int option" where
  "arrayIndex k =
     (case digits_value 10 0 k of
        Some n \<Rightarrow>
          if k \<noteq> [] \<and> (k = ''0'' \<or> hd k \<noteq> CHR ''0'') \<and> n < 2 ^ 32 - 1 then Some n else None
      | None \<Rightarrow> None)"

definition Object_values :: "(string \<times> 'a) list \<Rightarrow> 'a list" where
  "Object_values r =
     map snd (sort_key (\<lambda>(k, v). the (arrayIndex k)) (filter (\<lambda>(k, v). arrayIndex k \<noteq> None) r)
              @ filter (\<lambda>(k, v). arrayIndex k = None) r)"

record WinnerRow =
  w_id :: string
  w_name :: string

definition joinNames :: "string list \<Rightarrow> string" where
  "joinNames ns = (case ns of [] \<Rightarrow> [] | n # rest \<Rightarrow> foldl (\<lambda>acc x. acc @ '' & '' @ x) n rest)"

definition committeeWinners :: "Committee \<Rightarrow> Draw list \<Rightarrow> string list" where
  "committeeWinners committee ds =
     map winnerIdOrPairId (filter (\<lambda>d. d_committeeId d = c_id committee) ds)"

definition wonIds :: "Committee \<Rightarrow> Draw list \<Rightarrow> string set" where
  "wonIds committee ds = set (committeeWinners committee ds)"

definition eligibleWinners ::
  "Committee \<Rightarrow> Member list \<Rightarrow> Draw list \<Rightarrow> Draw option \<Rightarrow> WinnerRow list" where
  "eligibleWinners committee ms ds editingDraw =
     (let won = wonIds committee ds;
          fullMembers =
            map (\<lambda>m. \<lparr>w_id = m_id m, w_name = m_name m\<rparr>)
              (filter (\<lambda>m. shareType m = FULL \<and> m_id m \<notin> won) ms);
          pairs =
            Object_values
              (map (\<lambda>(k, g). (k, \<lparr>w_id = k, w_name = joinNames (map m_name g)\<rparr>))
                 (foldl (\<lambda>acc m.
                           if shareType m = HALF \<and> truthy (pairId m) \<and> the (pairId m) \<notin> won
                           then groupPush acc (the (pairId m)) m else acc)
                    [] ms))
      in case editingDraw of
           None \<Rightarrow> fullMembers @ pairs
         | Some draw \<Rightarrow>
             (let winnerId = winnerIdOrPairId draw;
                  winnerInMembers = find (\<lambda>m. m_id m = winnerId) ms;
                  pairMembers = filter (\<lambda>m. pairId m = Some winnerId) ms
              in case winnerInMembers of
                   Some w \<Rightarrow> \<lparr>w_id = winnerId, w_name = m_name w\<rparr> # fullMembers @ pairs
                 | None \<Rightarrow>
                     if length pairMembers > 0
                     then \<lparr>w_id = winnerId, w_name = joinNames (map m_name pairMembers)\<rparr>
                          # fullMembers @ pairs
                     else fullMembers @ pairs))"

section \<open>Partner selection\<close>

text \<open>
  The member dialog offers as partners the members \<open>unpairedHalfShareMembers\<close>: the
  half-share members of the committee whose \<open>pairId\<close> is their own identifier (the source
  comments this test: they are not paired with anyone else), the member being edited
  left out.
\<close>

definition unpairedHalfShareMembers :: "Committee \<Rightarrow> Member list \<Rightarrow> Member option \<Rightarrow> Member list" where
  "unpairedHalfShareMembers committee ms editingMember =
     filter (\<lambda>m. m_committeeId m = c_id committee \<and> shareType m = HALF
                \<and> pairId m = Some (m_id m)
                \<and> (case editingMember of None \<Rightarrow> True | Some e \<Rightarrow> m_id m \<noteq> m_id e))
       ms"

section \<open>Notions of the specification\<close>

text \<open>The natural key of a payment, and a payment list with at most one payment per key.\<close>

definition paymentKey :: "Payment \<Rightarrow> string \<times> string \<times> string" where
  "paymentKey p = (p_committeeId p, memberIdOrPairId p, p_monthYear p)"

definition uniquePayments :: "AppState \<Rightarrow> bool" where
  "uniquePayments s = distinct (map paymentKey (payments s))"

text \<open>Every committee's stored duration is the duration derived from the member list.\<close>

definition durationConsistent :: "AppState \<Rightarrow> bool" where
  "durationConsistent s =
     list_all (\<lambda>c. durationMonths c = calculateDuration (c_id c) (members s)) (committees s)"

text \<open>
  The derived duration in the specification's words: the full-share members of the
  committee, plus the groups of exactly two among its half-share members grouped by
  \<open>pairId\<close>. \<open>completePairs\<close> counts, among the distinct \<open>pairId\<close> values of a member list,
  those that exactly two of its members carry.
\<close>

definition completePairs :: "Member list \<Rightarrow> nat" where
  "completePairs hs =
     length (filter (\<lambda>k. length (filter (\<lambda>m. pairId m = k) hs) = 2) (remdups (map pairId hs)))"

definition deriveDuration :: "string \<Rightarrow> Member list \<Rightarrow> nat" where
  "deriveDuration committeeId ms =
     (let committeeMembers = filter (\<lambda>m. m_committeeId m = committeeId) ms
      in length (filter (\<lambda>m. shareType m = FULL) committeeMembers)
         + completePairs (filter (\<lambda>m. shareType m = HALF) committeeMembers))"

text \<open>
  The member lists that keep the grouping record within its keys. \<open>keyedPair\<close> holds of a
  member whose \<open>pairId\<close> is a record key, and \<open>wellKeyed\<close> of a member list in which every
  identifier is a record key and every half-share member has such a \<open>pairId\<close>.
  \<open>freshKey\<close> holds of a call that gives the member it adds, if it adds one, a record key
  as identifier.
\<close>

definition keyedPair :: "Member \<Rightarrow> bool" where
  "keyedPair m = (case pairId m of None \<Rightarrow> False | Some k \<Rightarrow> recordKey k)"

definition wellKeyed :: "Member list \<Rightarrow> bool" where
  "wellKeyed ms = list_all (\<lambda>m. recordKey (m_id m) \<and> (shareType m = FULL \<or> keyedPair m)) ms"

definition freshKey :: "Op \<Rightarrow> bool" where
  "freshKey op = (case op of AddMember newId m \<Rightarrow> recordKey newId | _ \<Rightarrow> True)"

text \<open>
  The calls that keep the payment keys apart: a payment is added only for a key no
  payment has yet, and a payment is edited only to the key it already has. Every other
  call qualifies. \<open>keepsPaymentKeysAll\<close> asks it of each call of a sequence, in the
  snapshot the call finds.
\<close>

definition keepsPaymentKeys :: "Op \<Rightarrow> AppState \<Rightarrow> bool" where
  "keepsPaymentKeys op s =
     (case op of
        AddPayment newId p pid \<Rightarrow>
          if truthy pid
          then list_all (\<lambda>q. p_id q \<noteq> the pid \<or> paymentKey q = paymentKey p) (payments s)
          else paymentKey p \<notin> set (map paymentKey (payments s))
      | _ \<Rightarrow> True)"

fun keepsPaymentKeysAll :: "Op list \<Rightarrow> Engine \<Rightarrow> bool" where
  "keepsPaymentKeysAll [] e = True"
| "keepsPaymentKeysAll (op # ops) e =
     (keepsPaymentKeys op (state e) \<and> keepsPaymentKeysAll ops (mutate op e))"

text \<open>
  What a member mutation naming a committee does, from the snapshot \<open>s\<close> it found to the
  snapshot \<open>s'\<close> it left. The committees of \<open>s'\<close> are those of \<open>s\<close>, one for one and in the
  same order: a committee with that identifier differs from the old one in
  \<open>durationMonths\<close> only, which is the duration derived from the members of \<open>s'\<close>, and
  every other committee is exactly as it was. Hence every committee of \<open>s'\<close> with that
  identifier stores its derived duration, and the committees with another identifier are
  the same list in \<open>s\<close> and \<open>s'\<close>. Payments and draws are as they were. And so, if every
  committee of \<open>s\<close> stored its derived duration and the members of the other committees
  are the same in \<open>s\<close> and \<open>s'\<close>, every committee of \<open>s'\<close> stores its derived duration.
\<close>

definition recomputedFor :: "string \<Rightarrow> AppState \<Rightarrow> AppState \<Rightarrow> bool" where
  "recomputedFor committeeId s s' =
     (committees s'
        = map (\<lambda>c. if c_id c = committeeId
                    then c\<lparr>durationMonths := calculateDuration committeeId (members s')\<rparr> else c)
            (committees s)
      \<and> list_all (\<lambda>c. c_id c \<noteq> committeeId
                       \<or> durationMonths c = calculateDuration committeeId (members s'))
          (committees s')
      \<and> filter (\<lambda>c. c_id c \<noteq> committeeId) (committees s')
        = filter (\<lambda>c. c_id c \<noteq> committeeId) (committees s)
      \<and> payments s' = payments s \<and> draws s' = draws s
      \<and> (durationConsistent s
           \<and> filter (\<lambda>m. m_committeeId m \<noteq> committeeId) (members s')
             = filter (\<lambda>m. m_committeeId m \<noteq> committeeId) (members s)
         \<longrightarrow> durationConsistent s'))"

text \<open>
  The calls that keep every stored duration derived. A member mutation recomputes only
  the committee that the member it is given names, so the members it touches must all
  belong to that committee: \<open>touchesOnly\<close> says that every member carrying one of the
  identifiers listed does. For \<open>addMember\<close> these are the members with the identifier of
  the requested partner; for \<open>updateMember\<close> those with the identifier of the edited
  member, of the requested partner and of the old partner; for \<open>deleteMember\<close> those with
  the identifier of the deleted member and of its partner. A new committee must get an
  identifier that no member names as its committee. Every other call qualifies.
  \<open>keepsDurationsAll\<close> asks it of each call of a sequence, in the snapshot the call finds.
\<close>

definition optIds :: "string option \<Rightarrow> string list" where
  "optIds k = (case k of None \<Rightarrow> [] | Some i \<Rightarrow> [i])"

definition touchesOnly :: "string \<Rightarrow> Member list \<Rightarrow> string list \<Rightarrow> bool" where
  "touchesOnly committeeId ms ids =
     list_all (\<lambda>p. m_id p \<notin> set ids \<or> m_committeeId p = committeeId) ms"

definition keepsDurations :: "Op \<Rightarrow> AppState \<Rightarrow> bool" where
  "keepsDurations op s =
     (case op of
        AddCommittee newId c \<Rightarrow> list_all (\<lambda>m. m_committeeId m \<noteq> newId) (members s)
      | AddMember newId m \<Rightarrow> touchesOnly (m_committeeId m) (members s) (optIds (pairId m))
      | UpdateMember um \<Rightarrow>
          (case find (\<lambda>x. m_id x = m_id um) (members s) of
             None \<Rightarrow> True
           | Some om \<Rightarrow>
               touchesOnly (m_committeeId um) (members s)
                 (m_id um # optIds (pairId um)
                  @ optIds (map_option m_id (partnerOf om (members s)))))
      | DeleteMember i \<Rightarrow>
          (case find (\<lambda>x. m_id x = i) (members s) of
             None \<Rightarrow> True
           | Some dm \<Rightarrow>
               touchesOnly (m_committeeId dm) (members s)
                 (i # optIds (map_option m_id (partnerOf dm (members s)))))
      | _ \<Rightarrow> True)"

fun keepsDurationsAll :: "Op list \<Rightarrow> Engine \<Rightarrow> bool" where
  "keepsDurationsAll [] e = True"
| "keepsDurationsAll (op # ops) e =
     (keepsDurations op (state e) \<and> keepsDurationsAll ops (mutate op e))"

section \<open>Example ledgers\<close>

text \<open>Concrete snapshots and calls, on which the properties below are evaluated.\<close>

definition engine0 :: Engine where
  "engine0 = \<lparr>state = emptyState, history = []\<rparr>"

definition committeeC :: CommitteeUpdate where
  "committeeC = \<lparr>u_id = ''c'', u_name = ''Kameeti'', u_monthlyAmount = 1000,
                  u_startDate = ''2024-01-01'', u_allowHalfShare = True\<rparr>"

definition memberOf :: "string \<Rightarrow> string \<Rightarrow> ShareType \<Rightarrow> string option \<Rightarrow> Member" where
  "memberOf i cid st pid =
     \<lparr>m_id = i, m_committeeId = cid, m_name = i, phone = ''0300'', shareType = st, pairId = pid\<rparr>"

definition drawOf :: "string \<Rightarrow> string \<Rightarrow> string \<Rightarrow> Draw" where
  "drawOf i cid w =
     \<lparr>d_id = i, d_committeeId = cid, d_monthYear = ''2024-01'', winnerIdOrPairId = w,
      payoutDate = ''2024-01-15'', d_amount = 5000\<rparr>"

text \<open>Five full-share members, a duration of five months and five recorded draws.\<close>

definition guardState :: AppState where
  "guardState =
     \<lparr>committees = [\<lparr>c_id = ''c'', c_name = ''Kameeti'', monthlyAmount = 1000,
                      startDate = ''2024-01-01'', durationMonths = 5, allowHalfShare = True\<rparr>],
      members = map (\<lambda>i. memberOf i ''c'' FULL None) [''m1'', ''m2'', ''m3'', ''m4'', ''m5''],
      payments = [],
      draws = map (\<lambda>i. drawOf i ''c'' i) [''m1'', ''m2'', ''m3'', ''m4'', ''m5'']\<rparr>"

text \<open>A committee with one unpaired half-share member.\<close>

definition halfState :: AppState where
  "halfState =
     \<lparr>committees = [\<lparr>c_id = ''c'', c_name = ''Kameeti'', monthlyAmount = 1000,
                      startDate = ''2024-01-01'', durationMonths = 0, allowHalfShare = True\<rparr>],
      members = [memberOf ''h1'' ''c'' HALF (Some ''h1'')],
      payments = [], draws = []\<rparr>"

text \<open>Three calls, the last one rejected (no member has the identifier).\<close>

definition roundTripOps :: "Op list" where
  "roundTripOps =
     [AddCommittee ''c'' committeeC, AddMember ''m1'' (memberOf [] ''c'' FULL None),
      DeleteMember ''zz'']"

text \<open>An engine whose history is full.\<close>

definition fullEngine :: Engine where
  "fullEngine = \<lparr>state = halfState, history = replicate 20 emptyState\<rparr>"

text \<open>
  Three half-share members added one after the other, the second and the third each
  with the first as partner.
\<close>

definition pairingOps :: "Op list" where
  "pairingOps =
     [AddCommittee ''c'' committeeC,
      AddMember ''a'' (memberOf [] ''c'' HALF None),
      AddMember ''b'' (memberOf [] ''c'' HALF (Some ''a'')),
      AddMember ''c'' (memberOf [] ''c'' HALF (Some ''a''))]"

text \<open>A payment of March 2024 made on a given day, and the same payment recorded twice.\<close>

definition paymentOf :: "string \<Rightarrow> string \<Rightarrow> Payment" where
  "paymentOf my dp =
     \<lparr>p_id = [], p_committeeId = ''c'', memberIdOrPairId = ''m1'', p_monthYear = my,
      p_amount = 1000, datePaid = dp, lateDays = 77, demeritPoints = 88\<rparr>"

definition doublePaymentOps :: "Op list" where
  "doublePaymentOps =
     [AddPayment ''p1'' (paymentOf ''2024-03'' ''2024-03-11'') None,
      AddPayment ''p2'' (paymentOf ''2024-03'' ''2024-03-12'') None]"

text \<open>A member moved from one committee to another by \<open>updateMember\<close>.\<close>

definition moveOps :: "Op list" where
  "moveOps =
     [AddCommittee ''x'' committeeC, AddCommittee ''y'' committeeC,
      AddMember ''m1'' (memberOf [] ''x'' FULL None),
      UpdateMember (memberOf ''m1'' ''y'' FULL None)]"

text \<open>
  The walk through of the specification: a committee, two full-share members, two
  half-share members without partner; then the second half-share member is edited to
  pair with the first.
\<close>

definition walkOps :: "Op list" where
  "walkOps =
     [AddCommittee ''c'' committeeC,
      AddMember ''f1'' (memberOf [] ''c'' FULL None),
      AddMember ''f2'' (memberOf [] ''c'' FULL None),
      AddMember ''h1'' (memberOf [] ''c'' HALF (Some [])),
      AddMember ''h2'' (memberOf [] ''c'' HALF (Some []))]"

definition walkEdit :: Member where
  "walkEdit = memberOf ''h2'' ''c'' HALF (Some ''h1'')"

text \<open>The committee as the dialogs are given it.\<close>

definition committeeRow :: Committee where
  "committeeRow = \<lparr>c_id = ''c'', c_name = ''Kameeti'', monthlyAmount = 1000,
                   startDate = ''2024-01-01'', durationMonths = 3, allowHalfShare = True\<rparr>"

text \<open>
  A full-share member and a half-share member without partner; a draw that the
  half-share member wins; a second half-share member, with the first as partner; a draw
  that the pair wins. \<open>rewinState n\<close> is the snapshot after the first \<open>n\<close> calls.
\<close>

definition rewinOps :: "Op list" where
  "rewinOps =
     [AddCommittee ''c'' committeeC,
      AddMember ''f'' (memberOf ''f'' ''c'' FULL None),
      AddMember ''h2'' (memberOf ''h2'' ''c'' HALF (Some [])),
      AddDraw ''d1'' (drawOf [] ''c'' ''h2'') None,
      AddMember ''h1'' (memberOf ''h1'' ''c'' HALF (Some ''h2'')),
      AddDraw ''d2'' (drawOf [] ''c'' ''h1'') None]"

definition rewinState :: "nat \<Rightarrow> AppState" where
  "rewinState n = state (mutations (take n rewinOps) engine0)"

definition walkState :: AppState where
  "walkState = state (mutations walkOps engine0)"


section \<open>Properties\<close>

lemmas example_defs =
  engine0_def committeeC_def memberOf_def drawOf_def guardState_def halfState_def
  emptyState_def roundTripOps_def fullEngine_def pairingOps_def paymentOf_def
  doublePaymentOps_def moveOps_def walkOps_def walkEdit_def
  committeeRow_def rewinOps_def rewinState_def walkState_def

subsection \<open>Snapshot and history\<close>

lemma history_updateStateAndHistory:
  "history (updateStateAndHistory f e) = take MAX_HISTORY_SIZE (state e # history e)"
  by (simp add: updateStateAndHistory_def Let_def)

lemma state_updateStateAndHistory:
  "state (updateStateAndHistory f e) = f (state e)"
  by (simp add: updateStateAndHistory_def Let_def)

lemmas engine_op_defs =
  addCommittee_def updateCommittee_def deleteCommittee_def addMember_def updateMember_def
  deleteMember_def addPayment_def deletePayment_def addDraw_def deleteDraw_def

lemmas member_op_defs =
  addCommittee_upd_def addMember_upd_def addMember_pairing_def updateMember_upd_def
  updateMember_members_def deleteMember_upd_def deleteMember_members_def partnerOf_def
  resetPartner_def setDuration_def calculateDuration_def membersByPairId_def truthy_def

lemma history_mutate:
  "history (mutate op e) = take MAX_HISTORY_SIZE (state e # history e)"
  by (cases op) (simp_all add: engine_op_defs history_updateStateAndHistory)

lemma undo_mutate:
  assumes "length (history e) < MAX_HISTORY_SIZE"
  shows "undo (mutate op e) = e"
proof -
  have "history (mutate op e) = state e # history e"
    using assms by (simp add: history_mutate)
  then show ?thesis by (simp add: undo_def)
qed

lemma mutations_snoc: "mutations (ops @ [op]) e = mutate op (mutations ops e)"
  by (induction ops arbitrary: e) simp_all

lemma length_history_mutations:
  "length (history e) + length ops \<le> MAX_HISTORY_SIZE \<Longrightarrow>
   length (history (mutations ops e)) = length (history e) + length ops"
proof (induction ops arbitrary: e)
  case Nil
  then show ?case by simp
next
  case (Cons op ops)
  have "length (history (mutate op e)) = Suc (length (history e))"
    using Cons.prems by (simp add: history_mutate)
  with Cons show ?case by simp
qed

lemma undos_mutations:
  "length (history e) + length ops \<le> MAX_HISTORY_SIZE \<Longrightarrow>
   undos (length ops) (mutations ops e) = e"
proof (induction ops rule: rev_induct)
  case Nil
  then show ?case by simp
next
  case (snoc op ops)
  then have len: "length (history (mutations ops e)) < MAX_HISTORY_SIZE"
    using length_history_mutations [of e ops] by simp
  have "undos (length (ops @ [op])) (mutations (ops @ [op]) e)
        = undos (length ops) (undo (mutate op (mutations ops e)))"
    by (simp add: mutations_snoc)
  also have "\<dots> = undos (length ops) (mutations ops e)"
    by (simp add: undo_mutate [OF len])
  finally show ?case using snoc by simp
qed

text \<open>
  Claim C6. Undo round trip: from a snapshot with empty history, after any sequence of
  \<open>N \<le> 20\<close> mutations, \<open>N\<close> undos restore the original engine (snapshot and history);
  undo pops the most recent history entry and makes it the snapshot; undo on an empty
  history changes nothing; \<open>canUndo\<close> holds exactly when the history is not empty; the
  history never holds more than 20 entries, a push onto fewer than 20 entries keeps
  them all, and a push onto 20 entries drops the oldest (last) one.
\<close>

theorem undo_round_trip:
  "(history e1 = [] \<and> length ops \<le> 20 \<longrightarrow> undos (length ops) (mutations ops e1) = e1)
   \<and> (history e2 = s # rest \<longrightarrow> undo e2 = \<lparr>state = s, history = rest\<rparr>)
   \<and> (history e3 = [] \<longrightarrow> undo e3 = e3)
   \<and> (canUndo e4 \<longleftrightarrow> history e4 \<noteq> [])
   \<and> length (history (mutate op e4)) \<le> 20
   \<and> (length (history e5) < 20 \<longrightarrow> history (mutate op e5) = state e5 # history e5)
   \<and> (length (history e6) = 20 \<longrightarrow> history (mutate op e6) = state e6 # butlast (history e6))"
proof -
  have a: "history e1 = [] \<and> length ops \<le> 20 \<longrightarrow> undos (length ops) (mutations ops e1) = e1"
    using undos_mutations [of e1 ops] by (simp add: MAX_HISTORY_SIZE_def)
  have b: "history e2 = s # rest \<longrightarrow> undo e2 = \<lparr>state = s, history = rest\<rparr>"
    by (simp add: undo_def)
  have c: "history e3 = [] \<longrightarrow> undo e3 = e3"
    by (simp add: undo_def)
  have d: "canUndo e4 \<longleftrightarrow> history e4 \<noteq> []"
    by (simp add: canUndo_def)
  have e: "length (history (mutate op e4)) \<le> 20"
    by (simp add: history_mutate MAX_HISTORY_SIZE_def)
  have f: "length (history e5) < 20 \<longrightarrow> history (mutate op e5) = state e5 # history e5"
    by (simp add: history_mutate MAX_HISTORY_SIZE_def)
  have g: "length (history e6) = 20 \<longrightarrow> history (mutate op e6) = state e6 # butlast (history e6)"
    by (simp add: history_mutate MAX_HISTORY_SIZE_def butlast_conv_take)
  from a b c d e f g show ?thesis by blast
qed

theorem undo_round_trip_witness:
  "undos (length roundTripOps) (mutations roundTripOps engine0) = engine0
   \<and> undo \<lparr>state = halfState, history = [guardState, emptyState]\<rparr>
       = \<lparr>state = guardState, history = [emptyState]\<rparr>
   \<and> undo engine0 = engine0
   \<and> canUndo fullEngine
   \<and> length (history (mutate (DeleteMember ''zz'') fullEngine)) \<le> 20
   \<and> history (mutate (DeleteMember ''zz'') engine0) = [emptyState]
   \<and> history (mutate (DeleteMember ''zz'') fullEngine) = halfState # replicate 19 emptyState"
  using undo_round_trip
    [of engine0 roundTripOps "\<lparr>state = halfState, history = [guardState, emptyState]\<rparr>"
        guardState "[emptyState]" engine0 fullEngine "DeleteMember ''zz''" engine0 fullEngine]
  by (simp add: engine0_def roundTripOps_def fullEngine_def butlast_conv_take)

text \<open>
  Claim C1 (as the code has it). The claim that a rejected call pushes nothing on the
  history fails: \<open>updateStateAndHistory\<close> pushes the old snapshot whatever the
  updater returned. Deleting an unknown member from the empty engine leaves the
  snapshot as it was, and the history then holds one entry and \<open>canUndo\<close> has become true.
  A deletion that the draw-count guard rejects pushes the snapshot in the same way.
\<close>

theorem rejected_call_pushes_history_counterexample:
  "state (deleteMember ''zz'' engine0) = state engine0
   \<and> history (deleteMember ''zz'' engine0) = [emptyState]
   \<and> history engine0 = []
   \<and> canUndo (deleteMember ''zz'' engine0)
   \<and> \<not> canUndo engine0
   \<and> state (deleteMember ''m5'' \<lparr>state = guardState, history = []\<rparr>) = guardState
   \<and> history (deleteMember ''m5'' \<lparr>state = guardState, history = []\<rparr>) = [guardState]"
  by (simp add: example_defs deleteMember_def state_updateStateAndHistory
        history_updateStateAndHistory deleteMember_upd_def canUndo_def MAX_HISTORY_SIZE_def
        calculateDuration_def deleteMember_members_def partnerOf_def resetPartner_def)

text \<open>
  Claim C1, amended. Every call of a mutation, a rejected one included, pushes the
  snapshot it found: the history after the call is the old snapshot followed by the old
  history, cut to 20 entries; \<open>canUndo\<close> is true after it; and an undo right after the
  call gives back the snapshot the call found, which after a rejected call is the
  snapshot the call left.
\<close>

theorem every_call_pushes_history:
  "history (mutate op e) = take MAX_HISTORY_SIZE (state e # history e)
   \<and> canUndo (mutate op e)
   \<and> state (undo (mutate op e)) = state e"
  by (simp add: history_mutate canUndo_def undo_def MAX_HISTORY_SIZE_def)

subsection \<open>Rejected calls\<close>

lemma find_unknown_id: "x \<notin> f ` set xs \<Longrightarrow> find (\<lambda>y. f y = x) xs = None"
  by (induction xs) auto

text \<open>
  Claim C5. Both guard rejections leave the snapshot as it was. (1) When the member to
  delete exists and the duration recomputed on the member list after the deletion (the
  member removed, its partner reset) is less than the number of draws of the member's
  committee, \<open>deleteMember\<close> returns the previous snapshot. (2) When \<open>updateCommittee\<close> is
  given \<open>allowHalfShare = false\<close> and some half-share member of that committee exists, it
  returns the previous snapshot.
\<close>

theorem guard_rejections_atomic:
  "(find (\<lambda>m. m_id m = i) (members (state e)) = Some m \<and>
    calculateDuration (m_committeeId m) (deleteMember_members m (members (state e)))
      < length (filter (\<lambda>d. d_committeeId d = m_committeeId m) (draws (state e)))
    \<longrightarrow> state (deleteMember i e) = state e)
   \<and> (\<not> u_allowHalfShare u \<and>
       (\<exists>m\<in>set (members (state e')). m_committeeId m = u_id u \<and> shareType m = HALF)
    \<longrightarrow> state (updateCommittee u e') = state e')"
  by (auto simp: deleteMember_def updateCommittee_def state_updateStateAndHistory
        deleteMember_upd_def updateCommittee_upd_def Let_def list_ex_iff split: option.splits)

theorem guard_rejections_atomic_witness:
  "state (deleteMember ''m5'' \<lparr>state = guardState, history = []\<rparr>) = guardState
   \<and> state (updateCommittee (committeeC\<lparr>u_allowHalfShare := False\<rparr>)
              \<lparr>state = halfState, history = []\<rparr>) = halfState"
  using guard_rejections_atomic
    [of "''m5''" "\<lparr>state = guardState, history = []\<rparr>" "memberOf ''m5'' ''c'' FULL None"
        "committeeC\<lparr>u_allowHalfShare := False\<rparr>" "\<lparr>state = halfState, history = []\<rparr>"]
  by (simp add: example_defs calculateDuration_def deleteMember_members_def partnerOf_def
        resetPartner_def)

text \<open>
  Claim C10. A mutation addressed to an identifier that no entity has leaves the
  snapshot unchanged: \<open>updateCommittee\<close> when no committee has the identifier,
  \<open>updateMember\<close> and \<open>deleteMember\<close> when no member has it.
\<close>

theorem unknown_id_unchanged:
  "(u_id u \<notin> c_id ` set (committees (state e1)) \<longrightarrow> state (updateCommittee u e1) = state e1)
   \<and> (m_id m \<notin> m_id ` set (members (state e2)) \<longrightarrow> state (updateMember m e2) = state e2)
   \<and> (i \<notin> m_id ` set (members (state e3)) \<longrightarrow> state (deleteMember i e3) = state e3)"
proof -
  have "state (updateCommittee u e1) = state e1"
    if "u_id u \<notin> c_id ` set (committees (state e1))"
    using find_unknown_id [OF that]
    by (simp add: updateCommittee_def state_updateStateAndHistory updateCommittee_upd_def)
  moreover have "state (updateMember m e2) = state e2"
    if "m_id m \<notin> m_id ` set (members (state e2))"
    using find_unknown_id [OF that]
    by (simp add: updateMember_def state_updateStateAndHistory updateMember_upd_def)
  moreover have "state (deleteMember i e3) = state e3"
    if "i \<notin> m_id ` set (members (state e3))"
    using find_unknown_id [OF that]
    by (simp add: deleteMember_def state_updateStateAndHistory deleteMember_upd_def)
  ultimately show ?thesis by blast
qed

theorem unknown_id_unchanged_witness:
  "state (updateCommittee (committeeC\<lparr>u_id := ''zz''\<rparr>) \<lparr>state = halfState, history = []\<rparr>)
     = halfState
   \<and> state (updateMember (memberOf ''zz'' ''c'' FULL None) \<lparr>state = guardState, history = []\<rparr>)
     = guardState
   \<and> state (deleteMember ''zz'' \<lparr>state = guardState, history = []\<rparr>) = guardState"
  using unknown_id_unchanged
    [of "committeeC\<lparr>u_id := ''zz''\<rparr>" "\<lparr>state = halfState, history = []\<rparr>"
        "memberOf ''zz'' ''c'' FULL None" "\<lparr>state = guardState, history = []\<rparr>"
        "''zz''" "\<lparr>state = guardState, history = []\<rparr>"]
  by (simp add: example_defs)

subsection \<open>Pairing\<close>

text \<open>
  Claim C2 (the code at the failing input). Pairing symmetry is not kept. The second
  member pairs with the first, and both carry the first one's identifier, the smaller
  of the two; the first member's \<open>pairId\<close> is then its own identifier, which is also the
  mark of an unpaired member, and the member dialog offers it as a partner again. The
  third member pairs with it, and three half-share members share one \<open>pairId\<close>.
\<close>

theorem three_members_share_pairId:
  "map (\<lambda>m. (m_id m, shareType m, pairId m)) (members (state (mutations (take 3 pairingOps) engine0)))
     = [(''a'', HALF, Some ''a''), (''b'', HALF, Some ''a'')]
   \<and> map m_id (unpairedHalfShareMembers committeeRow
                  (members (state (mutations (take 3 pairingOps) engine0))) None)
     = [''a'']
   \<and> map (\<lambda>m. (m_id m, shareType m, pairId m)) (members (state (mutations pairingOps engine0)))
     = [(''a'', HALF, Some ''a''), (''b'', HALF, Some ''a''), (''c'', HALF, Some ''a'')]"
  by (simp add: example_defs engine_op_defs state_updateStateAndHistory addCommittee_upd_def
        addMember_upd_def addMember_pairing_def truthy_def Let_def
        unpairedHalfShareMembers_def)

subsection \<open>Payment keys\<close>

text \<open>
  Claim C8 (as the code has it). The claim that reachable states hold at most one
  payment per key fails: \<open>handleAddPayment\<close> appends without looking at the payments
  already there. Two calls with the same committee, member and month, from the empty
  engine, leave two payments with one key.
\<close>

theorem duplicate_payment_counterexample:
  "map paymentKey (payments (state (mutations doublePaymentOps engine0)))
     = [(''c'', ''m1'', ''2024-03''), (''c'', ''m1'', ''2024-03'')]
   \<and> \<not> uniquePayments (state (mutations doublePaymentOps engine0))"
  by (simp add: example_defs engine_op_defs state_updateStateAndHistory truthy_def
        handleAddPayment_upd_def paymentKey_def uniquePayments_def split_beta)

lemma paymentKey_update [simp]:
  "paymentKey (p\<lparr>p_id := i, lateDays := l, demeritPoints := d\<rparr>) = paymentKey p"
  by (simp add: paymentKey_def)

lemma payments_other_ops [simp]:
  "payments (addCommittee_upd n c s) = payments s"
  "payments (updateCommittee_upd u s) = payments s"
  "payments (addMember_upd n m s) = payments s"
  "payments (updateMember_upd m s) = payments s"
  "payments (deleteMember_upd i s) = payments s"
  "payments (handleAddDraw_upd n d s) = payments s"
  "payments (handleUpdateDraw_upd d i s) = payments s"
  "payments (deleteDraw_upd i s) = payments s"
  by (simp_all add: addCommittee_upd_def updateCommittee_upd_def addMember_upd_def
        updateMember_upd_def deleteMember_upd_def handleAddDraw_upd_def handleUpdateDraw_upd_def
        deleteDraw_upd_def Let_def split_beta split: option.splits)

lemma update_keeps_keys:
  assumes "list_all (\<lambda>q. p_id q = i \<longrightarrow> paymentKey q = paymentKey p) ps"
  shows "map (paymentKey \<circ> (\<lambda>q. if p_id q = i
                                  then p\<lparr>p_id := i, lateDays := l, demeritPoints := d\<rparr> else q)) ps
         = map paymentKey ps"
  using assms by (induction ps) auto

lemma payment_keys_step:
  assumes "uniquePayments (state e)" and "keepsPaymentKeys op (state e)"
  shows "uniquePayments (state (mutate op e))"
proof (cases op)
  case (AddPayment newId p pid)
  show ?thesis
  proof (cases "truthy pid")
    case True
    then show ?thesis
      using AddPayment assms
      by (auto simp: addPayment_def state_updateStateAndHistory handleUpdatePayment_upd_def
            uniquePayments_def keepsPaymentKeys_def split_beta update_keeps_keys)
  next
    case False
    then show ?thesis
      using AddPayment assms
      by (auto simp: addPayment_def state_updateStateAndHistory handleAddPayment_upd_def
            uniquePayments_def keepsPaymentKeys_def split_beta)
  qed
qed (use assms in \<open>simp_all add: engine_op_defs state_updateStateAndHistory uniquePayments_def
       deleteCommittee_upd_def deletePayment_upd_def distinct_map_filter\<close>)

lemma payment_keys_steps:
  "uniquePayments (state e) \<Longrightarrow> keepsPaymentKeysAll ops e \<Longrightarrow>
   uniquePayments (state (mutations ops e))"
proof (induction ops arbitrary: e)
  case Nil
  then show ?case by simp
next
  case (Cons op ops)
  from Cons.prems have "uniquePayments (state (mutate op e))"
    by (simp add: payment_keys_step)
  with Cons show ?case by simp
qed

text \<open>
  Claim C8, amended. The engine checks nothing when it writes a payment; the key stays
  unique as long as the callers keep it so. If the snapshot holds at most one payment
  per key, and the call either adds a payment for a key that no payment has, or edits a
  payment without changing its key, or is any call other than \<open>addPayment\<close>, then the
  snapshot after the call holds at most one payment per key; and so does the snapshot
  after every sequence of such calls, from the empty snapshot in particular.
\<close>

theorem payment_keys_preserved:
  "(uniquePayments (state e) \<and> keepsPaymentKeys op (state e)
      \<longrightarrow> uniquePayments (state (mutate op e)))
   \<and> (uniquePayments (state e') \<and> keepsPaymentKeysAll ops e'
      \<longrightarrow> uniquePayments (state (mutations ops e')))"
  using payment_keys_step [of e op] payment_keys_steps [of e' ops] by blast

theorem payment_keys_preserved_witness:
  "uniquePayments (state (mutate (AddPayment ''p2'' (paymentOf ''2024-04'' ''2024-04-12'') None)
      (mutate (AddPayment ''p1'' (paymentOf ''2024-03'' ''2024-03-11'') None) engine0)))
   \<and> uniquePayments (state (mutations
        [AddPayment ''p1'' (paymentOf ''2024-03'' ''2024-03-11'') None,
         AddPayment ''p2'' (paymentOf ''2024-04'' ''2024-04-12'') None,
         AddPayment [] (paymentOf ''2024-04'' ''2024-04-15'') (Some ''p2'')] engine0))"
  using payment_keys_preserved
    [of "mutate (AddPayment ''p1'' (paymentOf ''2024-03'' ''2024-03-11'') None) engine0"
        "AddPayment ''p2'' (paymentOf ''2024-04'' ''2024-04-12'') None"
        engine0
        "[AddPayment ''p1'' (paymentOf ''2024-03'' ''2024-03-11'') None,
          AddPayment ''p2'' (paymentOf ''2024-04'' ''2024-04-12'') None,
          AddPayment [] (paymentOf ''2024-04'' ''2024-04-15'') (Some ''p2'')]"]
  by (simp add: example_defs engine_op_defs state_updateStateAndHistory truthy_def
        handleAddPayment_upd_def handleUpdatePayment_upd_def paymentKey_def uniquePayments_def
        keepsPaymentKeys_def split_beta)

subsection \<open>Draw eligibility\<close>

lemma keys_groupPush: "fst ` set (groupPush acc k m) = insert k (fst ` set acc)"
  by (induction acc k m rule: groupPush.induct) auto

lemma keys_grouping:
  "fst ` set (foldl (\<lambda>acc m. if C m then groupPush acc (f m) m else acc) acc ms)
   = fst ` set acc \<union> f ` {m \<in> set ms. C m}"
  by (induction ms arbitrary: acc) (auto simp: keys_groupPush)

lemma set_Object_values: "set (Object_values r) = snd ` set r"
  by (auto simp: Object_values_def image_iff)

text \<open>The identifiers of the rows offered for a new draw.\<close>

lemma eligible_ids:
  "w_id ` set (eligibleWinners c ms ds None)
   = {m_id m | m. m \<in> set ms \<and> shareType m = FULL \<and> m_id m \<notin> wonIds c ds}
     \<union> {k. \<exists>m\<in>set ms. shareType m = HALF \<and> pairId m = Some k \<and> k \<noteq> [] \<and> k \<notin> wonIds c ds}"
proof -
  have full: "w_id ` set (map (\<lambda>m. \<lparr>w_id = m_id m, w_name = m_name m\<rparr>)
                (filter (\<lambda>m. shareType m = FULL \<and> m_id m \<notin> wonIds c ds) ms))
              = {m_id m | m. m \<in> set ms \<and> shareType m = FULL \<and> m_id m \<notin> wonIds c ds}"
    by (auto simp: image_iff)
  have rows: "w_id ` set (Object_values
                (map (\<lambda>(k, g). (k, \<lparr>w_id = k, w_name = joinNames (map m_name g)\<rparr>)) gs))
              = fst ` set gs"
    for gs :: "(string \<times> Member list) list"
    unfolding set_Object_values by (force simp: image_iff)
  have keys: "(\<lambda>m. the (pairId m)) `
                {m \<in> set ms. shareType m = HALF \<and> truthy (pairId m) \<and> the (pairId m) \<notin> wonIds c ds}
              = {k. \<exists>m\<in>set ms. shareType m = HALF \<and> pairId m = Some k \<and> k \<noteq> [] \<and> k \<notin> wonIds c ds}"
    (is "?L = ?R")
  proof
    show "?L \<subseteq> ?R"
      by (auto simp: truthy_def split: option.splits)
    show "?R \<subseteq> ?L"
    proof
      fix k assume "k \<in> ?R"
      then obtain m where m: "m \<in> set ms" "shareType m = HALF" "pairId m = Some k" "k \<noteq> []"
        "k \<notin> wonIds c ds" by blast
      then have "m \<in> {m \<in> set ms. shareType m = HALF \<and> truthy (pairId m) \<and> the (pairId m) \<notin> wonIds c ds}"
        by (simp add: truthy_def)
      moreover have "k = the (pairId m)" using m by simp
      ultimately show "k \<in> ?L" by blast
    qed
  qed
  have pairs: "w_id ` set (Object_values
              (map (\<lambda>(k, g). (k, \<lparr>w_id = k, w_name = joinNames (map m_name g)\<rparr>))
              (foldl (\<lambda>acc m.
                        if shareType m = HALF \<and> truthy (pairId m) \<and> the (pairId m) \<notin> wonIds c ds
                        then groupPush acc (the (pairId m)) m else acc)
                 [] ms)))
            = {k. \<exists>m\<in>set ms. shareType m = HALF \<and> pairId m = Some k \<and> k \<noteq> [] \<and> k \<notin> wonIds c ds}"
    unfolding rows keys_grouping keys by simp
  show ?thesis
    unfolding eligibleWinners_def Let_def option.case set_append image_Un full pairs ..
qed

lemma rewinState_3:
  "rewinState 3
   = \<lparr>committees = [\<lparr>c_id = ''c'', c_name = ''Kameeti'', monthlyAmount = 1000,
                      startDate = ''2024-01-01'', durationMonths = 1, allowHalfShare = True\<rparr>],
      members = [memberOf ''f'' ''c'' FULL None, memberOf ''h2'' ''c'' HALF (Some ''h2'')],
      payments = [], draws = []\<rparr>"
  by (simp add: example_defs engine_op_defs state_updateStateAndHistory member_op_defs Let_def)

lemma rewinState_4:
  "rewinState 4 = rewinState 3\<lparr>draws := [drawOf ''d1'' ''c'' ''h2'']\<rparr>"
proof -
  have "rewinState 4 = state (mutate (AddDraw ''d1'' (drawOf [] ''c'' ''h2'') None)
                          (mutations (take 3 rewinOps) engine0))"
    unfolding rewinState_def mutations_snoc [symmetric] by (simp add: rewinOps_def)
  then show ?thesis
    unfolding rewinState_def [symmetric] rewinState_3
    by (simp add: addDraw_def truthy_def state_updateStateAndHistory handleAddDraw_upd_def
          drawOf_def rewinState_def [symmetric] rewinState_3)
qed

text \<open>
  Claim C9 (the code at the failing input). A member wins twice. The half-share member
  \<open>h2\<close> has no partner, so its \<open>pairId\<close> is its own identifier; the committee has one
  full-share member and a duration of 1, the page offers to record a draw, the dialog
  lists \<open>h2\<close>, and \<open>h2\<close> wins. Then \<open>h1\<close> is added with \<open>h2\<close>, which the member dialog
  offers, as partner: both carry the \<open>pairId\<close> \<open>h1\<close>, the smaller identifier, and the
  duration is 2. The winners recorded are \<open>h2\<close> only, so the page offers a second draw
  and the dialog lists the pair \<open>h1\<close>, whose members are \<open>h2\<close> and \<open>h1\<close>; the pair wins,
  and \<open>h2\<close> has won under two identifiers.
\<close>

theorem member_wins_twice:
  "map (\<lambda>m. (m_id m, shareType m, pairId m)) (members (rewinState 3))
     = [(''f'', FULL, None), (''h2'', HALF, Some ''h2'')]
   \<and> length (filter (\<lambda>d. d_committeeId d = ''c'') (draws (rewinState 3)))
       < durationMonths (hd (committees (rewinState 3)))
   \<and> map (\<lambda>w. (w_id w, w_name w))
        (eligibleWinners (hd (committees (rewinState 3)))
           (filter (\<lambda>m. m_committeeId m = ''c'') (members (rewinState 3)))
           (filter (\<lambda>d. d_committeeId d = ''c'') (draws (rewinState 3))) None)
     = [(''f'', ''f''), (''h2'', ''h2'')]
   \<and> map m_id (unpairedHalfShareMembers (hd (committees (rewinState 4)))
                  (members (rewinState 4)) None)
     = [''h2'']
   \<and> map (\<lambda>m. (m_id m, shareType m, pairId m)) (members (rewinState 5))
     = [(''f'', FULL, None), (''h2'', HALF, Some ''h1''), (''h1'', HALF, Some ''h1'')]
   \<and> map winnerIdOrPairId (draws (rewinState 5)) = [''h2'']
   \<and> length (filter (\<lambda>d. d_committeeId d = ''c'') (draws (rewinState 5)))
       < durationMonths (hd (committees (rewinState 5)))
   \<and> map (\<lambda>w. (w_id w, w_name w))
        (eligibleWinners (hd (committees (rewinState 5)))
           (filter (\<lambda>m. m_committeeId m = ''c'') (members (rewinState 5)))
           (filter (\<lambda>d. d_committeeId d = ''c'') (draws (rewinState 5))) None)
     = [(''f'', ''f''), (''h1'', ''h2 & h1'')]
   \<and> map (\<lambda>d. (d_committeeId d, winnerIdOrPairId d)) (draws (rewinState 6))
     = [(''c'', ''h2''), (''c'', ''h1'')]
   \<and> map (\<lambda>m. (m_id m, pairId m)) (members (rewinState 6))
     = [(''f'', None), (''h2'', Some ''h1''), (''h1'', Some ''h1'')]"
proof -
  have s5: "rewinState 5
    = \<lparr>committees = [\<lparr>c_id = ''c'', c_name = ''Kameeti'', monthlyAmount = 1000,
                      startDate = ''2024-01-01'', durationMonths = 2, allowHalfShare = True\<rparr>],
       members = [memberOf ''f'' ''c'' FULL None, memberOf ''h2'' ''c'' HALF (Some ''h1''),
                  memberOf ''h1'' ''c'' HALF (Some ''h1'')],
       payments = [], draws = [drawOf ''d1'' ''c'' ''h2'']\<rparr>"
  proof -
    have "rewinState 5 = state (mutate (AddMember ''h1'' (memberOf ''h1'' ''c'' HALF (Some ''h2'')))
                            (mutations (take 4 rewinOps) engine0))"
      unfolding rewinState_def mutations_snoc [symmetric] by (simp add: rewinOps_def)
    then have "rewinState 5
               = addMember_upd ''h1'' (memberOf ''h1'' ''c'' HALF (Some ''h2'')) (rewinState 4)"
      by (simp add: addMember_def state_updateStateAndHistory rewinState_def)
    then show ?thesis
      unfolding rewinState_4 rewinState_3
      by (simp add: memberOf_def member_op_defs Let_def)
  qed
  have s6: "rewinState 6
    = rewinState 5\<lparr>draws := [drawOf ''d1'' ''c'' ''h2'', drawOf ''d2'' ''c'' ''h1'']\<rparr>"
  proof -
    have "rewinState 6 = state (mutate (AddDraw ''d2'' (drawOf [] ''c'' ''h1'') None)
                            (mutations (take 5 rewinOps) engine0))"
      unfolding rewinState_def mutations_snoc [symmetric] by (simp add: rewinOps_def)
    then show ?thesis
      unfolding rewinState_def [symmetric] s5
      by (simp add: addDraw_def truthy_def state_updateStateAndHistory handleAddDraw_upd_def
            drawOf_def rewinState_def [symmetric] s5)
  qed
  have idx: "arrayIndex ''h1'' = None" "arrayIndex ''h2'' = None"
    by (simp_all add: arrayIndex_def digit_of_def)
  have 1: "map (\<lambda>m. (m_id m, shareType m, pairId m)) (members (rewinState 3))
     = [(''f'', FULL, None), (''h2'', HALF, Some ''h2'')]"
    by (simp add: rewinState_3 memberOf_def)
  have 2: "length (filter (\<lambda>d. d_committeeId d = ''c'') (draws (rewinState 3)))
       < durationMonths (hd (committees (rewinState 3)))"
    by (simp add: rewinState_3)
  have 3: "map (\<lambda>w. (w_id w, w_name w))
        (eligibleWinners (hd (committees (rewinState 3)))
           (filter (\<lambda>m. m_committeeId m = ''c'') (members (rewinState 3)))
           (filter (\<lambda>d. d_committeeId d = ''c'') (draws (rewinState 3))) None)
     = [(''f'', ''f''), (''h2'', ''h2'')]"
    by (simp add: rewinState_3 memberOf_def eligibleWinners_def wonIds_def committeeWinners_def
          truthy_def joinNames_def Object_values_def idx Let_def)
  have 4: "map m_id (unpairedHalfShareMembers (hd (committees (rewinState 4)))
                  (members (rewinState 4)) None) = [''h2'']"
    by (simp add: rewinState_4 rewinState_3 memberOf_def unpairedHalfShareMembers_def)
  have 5: "map (\<lambda>m. (m_id m, shareType m, pairId m)) (members (rewinState 5))
     = [(''f'', FULL, None), (''h2'', HALF, Some ''h1''), (''h1'', HALF, Some ''h1'')]"
    by (simp add: s5 memberOf_def)
  have 6: "map winnerIdOrPairId (draws (rewinState 5)) = [''h2'']"
    by (simp add: s5 drawOf_def)
  have 7: "length (filter (\<lambda>d. d_committeeId d = ''c'') (draws (rewinState 5)))
       < durationMonths (hd (committees (rewinState 5)))"
    by (simp add: s5 drawOf_def)
  have 8: "map (\<lambda>w. (w_id w, w_name w))
        (eligibleWinners (hd (committees (rewinState 5)))
           (filter (\<lambda>m. m_committeeId m = ''c'') (members (rewinState 5)))
           (filter (\<lambda>d. d_committeeId d = ''c'') (draws (rewinState 5))) None)
     = [(''f'', ''f''), (''h1'', ''h2 & h1'')]"
    by (simp add: s5 memberOf_def drawOf_def eligibleWinners_def wonIds_def committeeWinners_def
          truthy_def joinNames_def Object_values_def idx Let_def)
  have 9: "map (\<lambda>d. (d_committeeId d, winnerIdOrPairId d)) (draws (rewinState 6))
     = [(''c'', ''h2''), (''c'', ''h1'')]"
    by (simp add: s6 drawOf_def)
  have 10: "map (\<lambda>m. (m_id m, pairId m)) (members (rewinState 6))
     = [(''f'', None), (''h2'', Some ''h1''), (''h1'', Some ''h1'')]"
    by (simp add: s6 s5 memberOf_def)
  show ?thesis
    by (intro conjI) (rule 1, rule 2, rule 3, rule 4, rule 5, rule 6, rule 7, rule 8, rule 9,
        rule 10)
qed

subsection \<open>Stored and derived duration\<close>

lemma filter_filter_subset:
  "(\<And>x. P x \<Longrightarrow> Q x) \<Longrightarrow> filter P (filter Q xs) = filter P xs"
  by (induction xs) auto

lemma calculateDuration_filter:
  assumes "c \<noteq> cid"
  shows "calculateDuration c (filter (\<lambda>m. m_committeeId m \<noteq> cid) ms) = calculateDuration c ms"
proof -
  have eq: "filter (\<lambda>m. m_committeeId m = c) (filter (\<lambda>m. m_committeeId m \<noteq> cid) ms)
            = filter (\<lambda>m. m_committeeId m = c) ms"
    using assms by (intro filter_filter_subset) simp
  show ?thesis by (simp only: calculateDuration_def eq)
qed

lemma setDuration_target:
  assumes "c \<in> set (setDuration cid n cs)" and "c_id c = cid"
  shows "durationMonths c = n"
proof -
  from assms(1) obtain x
    where x: "c = (if c_id x = cid then x\<lparr>durationMonths := n\<rparr> else x)"
    unfolding setDuration_def by (auto simp only: set_map)
  show ?thesis
  proof (cases "c_id x = cid")
    case True
    with x show ?thesis by simp
  next
    case False
    with x assms(2) show ?thesis by simp
  qed
qed

lemma setDuration_others:
  "c \<in> set (setDuration cid n cs) \<Longrightarrow> c_id c \<noteq> cid \<Longrightarrow> c \<in> set cs"
  by (auto simp: setDuration_def)

lemma calculateDuration_frame:
  assumes "filter (\<lambda>m. m_committeeId m \<noteq> cid) ms' = filter (\<lambda>m. m_committeeId m \<noteq> cid) ms"
    and "c \<noteq> cid"
  shows "calculateDuration c ms' = calculateDuration c ms"
  using calculateDuration_filter [OF assms(2), of ms'] calculateDuration_filter [OF assms(2), of ms]
    assms(1) by simp

lemma setDuration_frame:
  "filter (\<lambda>c. c_id c \<noteq> cid) (setDuration cid n cs) = filter (\<lambda>c. c_id c \<noteq> cid) cs"
  unfolding setDuration_def by (induction cs) simp_all

lemma recomputedFor_setDuration:
  "recomputedFor cid s
     (s\<lparr>members := ms', committees := setDuration cid (calculateDuration cid ms') (committees s)\<rparr>)"
proof -
  let ?s' = "s\<lparr>members := ms', committees := setDuration cid (calculateDuration cid ms') (committees s)\<rparr>"
  have 0: "committees ?s'
        = map (\<lambda>c. if c_id c = cid
                    then c\<lparr>durationMonths := calculateDuration cid (members ?s')\<rparr> else c)
            (committees s)"
    by (simp add: setDuration_def)
  have 1: "list_all (\<lambda>c. c_id c \<noteq> cid \<or> durationMonths c = calculateDuration cid (members ?s'))
             (committees ?s')"
    by (auto simp: list_all_iff dest: setDuration_target)
  have 2: "filter (\<lambda>c. c_id c \<noteq> cid) (committees ?s') = filter (\<lambda>c. c_id c \<noteq> cid) (committees s)"
    by (simp add: setDuration_frame)
  have 3: "durationConsistent ?s'"
    if cons: "durationConsistent s"
      and frame: "filter (\<lambda>m. m_committeeId m \<noteq> cid) (members ?s')
                  = filter (\<lambda>m. m_committeeId m \<noteq> cid) (members s)"
  proof -
    have "durationMonths c = calculateDuration (c_id c) ms'" if c: "c \<in> set (committees ?s')" for c
    proof (cases "c_id c = cid")
      case True
      with 1 c show ?thesis by (auto simp: list_all_iff)
    next
      case False
      with c have "c \<in> set (committees s)"
        by (auto dest: setDuration_others)
      with cons have "durationMonths c = calculateDuration (c_id c) (members s)"
        by (simp add: durationConsistent_def list_all_iff)
      moreover have "calculateDuration (c_id c) ms' = calculateDuration (c_id c) (members s)"
        using calculateDuration_frame [of cid ms' "members s" "c_id c"] frame False by simp
      ultimately show ?thesis by simp
    qed
    then show ?thesis by (simp add: durationConsistent_def list_all_iff)
  qed
  have 4: "payments ?s' = payments s" "draws ?s' = draws s"
    by simp_all
  show ?thesis
    unfolding recomputedFor_def
  proof (intro conjI impI)
    assume h: "durationConsistent s
      \<and> filter (\<lambda>m. m_committeeId m \<noteq> cid) (members ?s')
        = filter (\<lambda>m. m_committeeId m \<noteq> cid) (members s)"
    show "durationConsistent ?s'"
      by (rule 3 [OF h [THEN conjunct1] h [THEN conjunct2]])
  qed (rule 0, rule 1, rule 2, rule 4(1), rule 4(2))
qed

lemma addMember_pairing_committee:
  "m_committeeId (snd (addMember_pairing nm ms)) = m_committeeId nm"
  by (simp add: addMember_pairing_def Let_def split: option.splits)

lemma updateMember_members_committee:
  "m_committeeId (snd (updateMember_members um om ms)) = m_committeeId um"
  by (simp add: updateMember_members_def Let_def split_beta split: option.splits)

lemma addMember_upd_shape:
  "addMember_upd newId m s =
     s\<lparr>members := members (addMember_upd newId m s),
       committees := setDuration (m_committeeId m)
                       (calculateDuration (m_committeeId m) (members (addMember_upd newId m s)))
                       (committees s)\<rparr>"
  using addMember_pairing_committee [of "m\<lparr>m_id := newId\<rparr>" "members s"]
  by (simp add: addMember_upd_def Let_def split_beta)

lemma updateMember_upd_shape:
  assumes "find (\<lambda>x. m_id x = m_id m) (members s) = Some om"
  shows "updateMember_upd m s =
     s\<lparr>members := members (updateMember_upd m s),
       committees := setDuration (m_committeeId m)
                       (calculateDuration (m_committeeId m) (members (updateMember_upd m s)))
                       (committees s)\<rparr>"
  using assms updateMember_members_committee [of m om "members s"]
  by (simp add: updateMember_upd_def Let_def split_beta)

lemma deleteMember_upd_shape:
  assumes "find (\<lambda>x. m_id x = i) (members s) = Some dm" and "deleteMember_upd i s \<noteq> s"
  shows "deleteMember_upd i s =
     s\<lparr>members := members (deleteMember_upd i s),
       committees := setDuration (m_committeeId dm)
                       (calculateDuration (m_committeeId dm) (members (deleteMember_upd i s)))
                       (committees s)\<rparr>"
  using assms by (simp add: deleteMember_upd_def Let_def split: if_splits)

lemma find_known_id: "x \<in> f ` set xs \<Longrightarrow> \<exists>y. find (\<lambda>y. f y = x) xs = Some y"
  by (induction xs) auto

lemma findIndex_Some: "findIndex P xs = Some i \<Longrightarrow> i < length xs \<and> P (xs ! i)"
proof (induction xs arbitrary: i)
  case Nil
  then show ?case by simp
next
  case (Cons x xs)
  show ?case
  proof (cases "P x")
    case True
    with Cons.prems show ?thesis by simp
  next
    case False
    with Cons.prems obtain j where j: "findIndex P xs = Some j" "i = Suc j" by auto
    from Cons.IH [OF j(1)] j(2) show ?thesis by simp
  qed
qed

lemma filter_update_outside:
  "i < length xs \<Longrightarrow> \<not> P (xs ! i) \<Longrightarrow> \<not> P y \<Longrightarrow> filter P (xs[i := y]) = filter P xs"
proof (induction xs arbitrary: i)
  case Nil
  then show ?case by simp
next
  case (Cons x xs)
  then show ?case by (cases i) simp_all
qed

text \<open>Writing a member of the committee over a member of the committee.\<close>

lemma frame_update:
  assumes idx: "findIndex (\<lambda>m. m_id m = k) ms = Some idx"
    and within: "\<And>p. p \<in> set ms \<Longrightarrow> m_id p = k \<Longrightarrow> m_committeeId p = cid"
    and y: "m_committeeId y = cid"
  shows "filter (\<lambda>m. m_committeeId m \<noteq> cid) (ms[idx := y])
         = filter (\<lambda>m. m_committeeId m \<noteq> cid) ms"
proof -
  from findIndex_Some [OF idx] have i: "idx < length ms" and k: "m_id (ms ! idx) = k"
    by simp_all
  from i have "ms ! idx \<in> set ms" by simp
  from within [OF this k] have "\<not> m_committeeId (ms ! idx) \<noteq> cid" by simp
  moreover from y have "\<not> m_committeeId y \<noteq> cid" by simp
  ultimately show ?thesis
    using i by (intro filter_update_outside)
qed

lemma frame_pairId_update:
  assumes idx: "findIndex (\<lambda>m. m_id m = k) ms = Some idx"
    and within: "\<And>p. p \<in> set ms \<Longrightarrow> m_id p = k \<Longrightarrow> m_committeeId p = cid"
  shows "filter (\<lambda>m. m_committeeId m \<noteq> cid) (ms[idx := (ms ! idx)\<lparr>pairId := v\<rparr>])
         = filter (\<lambda>m. m_committeeId m \<noteq> cid) ms"
proof (rule frame_update [OF idx within])
  from findIndex_Some [OF idx] have "ms ! idx \<in> set ms" "m_id (ms ! idx) = k" by simp_all
  from within [OF this] show "m_committeeId ((ms ! idx)\<lparr>pairId := v\<rparr>) = cid" by simp
qed

lemma frame_resetPartner:
  assumes "\<And>p q. partner = Some q \<Longrightarrow> p \<in> set ms \<Longrightarrow> m_id p = m_id q \<Longrightarrow> m_committeeId p = cid"
  shows "filter (\<lambda>m. m_committeeId m \<noteq> cid) (resetPartner partner ms)
         = filter (\<lambda>m. m_committeeId m \<noteq> cid) ms"
proof (cases partner)
  case None
  then show ?thesis by (simp add: resetPartner_def)
next
  case (Some q)
  show ?thesis
  proof (cases "findIndex (\<lambda>m. m_id m = m_id q) ms")
    case None
    with Some show ?thesis by (simp add: resetPartner_def)
  next
    case (Some idx)
    from frame_pairId_update [OF Some, of cid "Some (m_id q)"] assms [OF \<open>partner = Some q\<close>]
    show ?thesis using \<open>partner = Some q\<close> Some by (simp add: resetPartner_def)
  qed
qed

lemma filter_filter_within:
  "(\<And>x. x \<in> set xs \<Longrightarrow> P x \<Longrightarrow> Q x) \<Longrightarrow> filter P (filter Q xs) = filter P xs"
  by (induction xs) auto

lemma touchesOnlyD:
  "touchesOnly cid ms ids \<Longrightarrow> p \<in> set ms \<Longrightarrow> m_id p \<in> set ids \<Longrightarrow> m_committeeId p = cid"
  by (auto simp: touchesOnly_def list_all_iff)

lemma frame_addMember:
  assumes "touchesOnly (m_committeeId m) (members s) (optIds (pairId m))"
  shows "filter (\<lambda>x. m_committeeId x \<noteq> m_committeeId m) (members (addMember_upd newId m s))
         = filter (\<lambda>x. m_committeeId x \<noteq> m_committeeId m) (members s)"
proof -
  let ?cid = "m_committeeId m"
  let ?nm = "m\<lparr>m_id := newId\<rparr>"
  have mem: "members (addMember_upd newId m s)
             = fst (addMember_pairing ?nm (members s)) @ [snd (addMember_pairing ?nm (members s))]"
    by (simp add: addMember_upd_def Let_def split_beta)
  have last: "m_committeeId (snd (addMember_pairing ?nm (members s))) = ?cid"
    by (simp add: addMember_pairing_committee)
  have first: "filter (\<lambda>x. m_committeeId x \<noteq> ?cid) (fst (addMember_pairing ?nm (members s)))
               = filter (\<lambda>x. m_committeeId x \<noteq> ?cid) (members s)"
  proof (cases "shareType m = HALF \<and> truthy (pairId m)")
    case False
    then show ?thesis by (auto simp: addMember_pairing_def)
  next
    case True
    then obtain k where k: "pairId m = Some k" "k \<noteq> []"
      by (auto simp: truthy_def split: option.splits)
    show ?thesis
    proof (cases "findIndex (\<lambda>x. m_id x = k) (members s)")
      case None
      with True k show ?thesis by (simp add: addMember_pairing_def)
    next
      case (Some idx)
      have "m_committeeId p = ?cid" if "p \<in> set (members s)" "m_id p = k" for p
        using touchesOnlyD [OF assms that(1)] that(2) k by (simp add: optIds_def)
      from frame_pairId_update [OF Some this]
      show ?thesis using True k Some by (simp add: addMember_pairing_def Let_def)
    qed
  qed
  show ?thesis unfolding mem using first last by simp
qed

lemma frame_deleteMember:
  assumes dm: "find (\<lambda>x. m_id x = i) (members s) = Some dm"
    and t: "touchesOnly (m_committeeId dm) (members s)
              (i # optIds (map_option m_id (partnerOf dm (members s))))"
  shows "filter (\<lambda>x. m_committeeId x \<noteq> m_committeeId dm) (deleteMember_members dm (members s))
         = filter (\<lambda>x. m_committeeId x \<noteq> m_committeeId dm) (members s)"
proof -
  let ?cid = "m_committeeId dm"
  let ?ms = "members s"
  from dm have idm: "m_id dm = i"
    by (auto simp: find_Some_iff)
  have removed: "filter (\<lambda>x. m_committeeId x \<noteq> ?cid) (filter (\<lambda>x. m_id x \<noteq> i) ?ms)
                 = filter (\<lambda>x. m_committeeId x \<noteq> ?cid) ?ms"
  proof (rule filter_filter_within)
    fix x assume "x \<in> set ?ms" "m_committeeId x \<noteq> ?cid"
    with touchesOnlyD [OF t, of x] show "m_id x \<noteq> i" by auto
  qed
  have "filter (\<lambda>x. m_committeeId x \<noteq> ?cid)
          (resetPartner (partnerOf dm ?ms) (filter (\<lambda>x. m_id x \<noteq> i) ?ms))
        = filter (\<lambda>x. m_committeeId x \<noteq> ?cid) (filter (\<lambda>x. m_id x \<noteq> i) ?ms)"
  proof (rule frame_resetPartner)
    fix p q assume q: "partnerOf dm ?ms = Some q"
      and p: "p \<in> set (filter (\<lambda>x. m_id x \<noteq> i) ?ms)" "m_id p = m_id q"
    from p have "p \<in> set ?ms" by simp
    from touchesOnlyD [OF t this] q p(2) show "m_committeeId p = ?cid"
      by (simp add: optIds_def)
  qed
  with removed show ?thesis by (simp add: deleteMember_members_def idm)
qed


text \<open>Identifiers and committees of the members, which no pairing step changes.\<close>

lemma keyed_pairId_update:
  assumes "idx < length ms"
  shows "map (\<lambda>m. (m_id m, m_committeeId m)) (ms[idx := (ms ! idx)\<lparr>pairId := v\<rparr>])
         = map (\<lambda>m. (m_id m, m_committeeId m)) ms"
  using assms by (simp add: map_update list_update_same_conv)

lemma keyed_resetPartner:
  "map (\<lambda>m. (m_id m, m_committeeId m)) (resetPartner partner ms)
   = map (\<lambda>m. (m_id m, m_committeeId m)) ms"
proof (cases partner)
  case None
  then show ?thesis by (simp add: resetPartner_def)
next
  case (Some q)
  show ?thesis
  proof (cases "findIndex (\<lambda>m. m_id m = m_id q) ms")
    case None
    with \<open>partner = Some q\<close> show ?thesis by (simp add: resetPartner_def)
  next
    case (Some idx)
    from findIndex_Some [OF this] have "idx < length ms" by simp
    from keyed_pairId_update [OF this] Some \<open>partner = Some q\<close>
    show ?thesis by (simp add: resetPartner_def)
  qed
qed

lemma within_keyed:
  assumes keyed: "map (\<lambda>m. (m_id m, m_committeeId m)) r = map (\<lambda>m. (m_id m, m_committeeId m)) ms"
    and within: "\<And>p. p \<in> set ms \<Longrightarrow> m_id p = k \<Longrightarrow> m_committeeId p = cid"
    and p: "p \<in> set r" "m_id p = k"
  shows "m_committeeId p = cid"
proof -
  from p(1) have "(m_id p, m_committeeId p) \<in> set (map (\<lambda>m. (m_id m, m_committeeId m)) r)"
    by (simp add: image_iff) blast
  then have "(m_id p, m_committeeId p) \<in> set (map (\<lambda>m. (m_id m, m_committeeId m)) ms)"
    by (simp only: keyed)
  then obtain p' where "p' \<in> set ms" "m_id p' = m_id p" "m_committeeId p' = m_committeeId p"
    by auto
  with within [of p'] p(2) show ?thesis by simp
qed

lemma frame_updateMember:
  assumes t: "touchesOnly (m_committeeId um) ms
                (m_id um # optIds (pairId um) @ optIds (map_option m_id (partnerOf om ms)))"
  shows "filter (\<lambda>x. m_committeeId x \<noteq> m_committeeId um) (fst (updateMember_members um om ms))
         = filter (\<lambda>x. m_committeeId x \<noteq> m_committeeId um) ms"
proof -
  let ?cid = "m_committeeId um"
  let ?F = "filter (\<lambda>x. m_committeeId x \<noteq> ?cid)"
  let ?np = "case pairId um of None \<Rightarrow> [] | Some s \<Rightarrow> s"
  define r where "r = resetPartner (partnerOf om ms) ms"
  define l where "l = (if ?np \<noteq> [] then
               (case findIndex (\<lambda>m. m_id m = ?np) r of
                  Some idx \<Rightarrow> r[idx := (r ! idx)\<lparr>pairId := Some (if m_id um < ?np then m_id um else ?np)\<rparr>]
                | None \<Rightarrow> r)
             else r)"
  define um' where "um' = snd (updateMember_members um om ms)"
  have res: "fst (updateMember_members um om ms)
             = (case findIndex (\<lambda>m. m_id m = m_id um) l of
                  Some idx \<Rightarrow> l[idx := um'] | None \<Rightarrow> l)"
    unfolding um'_def l_def r_def
    by (simp add: updateMember_members_def Let_def split_beta split: option.splits)
  have um': "m_committeeId um' = ?cid"
    unfolding um'_def by (rule updateMember_members_committee)
  have Fr: "?F r = ?F ms"
    unfolding r_def
  proof (rule frame_resetPartner)
    fix p q assume "partnerOf om ms = Some q" "p \<in> set ms" "m_id p = m_id q"
    with touchesOnlyD [OF t, of p] show "m_committeeId p = ?cid"
      by (simp add: optIds_def)
  qed
  have keyed_r: "map (\<lambda>m. (m_id m, m_committeeId m)) r = map (\<lambda>m. (m_id m, m_committeeId m)) ms"
    unfolding r_def by (rule keyed_resetPartner)
  have within_r: "m_committeeId p = ?cid"
    if "p \<in> set r" "m_id p = k" "k = m_id um \<or> pairId um = Some k" for p k
  proof (rule within_keyed [OF keyed_r _ that(1,2)])
    fix p' assume "p' \<in> set ms" "m_id p' = k"
    with touchesOnlyD [OF t, of p'] that(3) show "m_committeeId p' = ?cid"
      by (auto simp: optIds_def)
  qed
  have Fl: "?F l = ?F r" and keyed_l:
    "map (\<lambda>m. (m_id m, m_committeeId m)) l = map (\<lambda>m. (m_id m, m_committeeId m)) r"
  proof -
    show "?F l = ?F r"
    proof (cases "?np \<noteq> []")
      case False
      then show ?thesis by (simp add: l_def)
    next
      case True
      then have np: "pairId um = Some ?np" by (cases "pairId um") simp_all
      show ?thesis
      proof (cases "findIndex (\<lambda>m. m_id m = ?np) r")
        case None
        with True show ?thesis by (simp add: l_def)
      next
        case (Some idx)
        have "m_committeeId p = ?cid" if "p \<in> set r" "m_id p = ?np" for p
          using within_r [OF that] np by simp
        from frame_pairId_update [OF Some this] True Some show ?thesis
          by (simp add: l_def)
      qed
    qed
    show "map (\<lambda>m. (m_id m, m_committeeId m)) l = map (\<lambda>m. (m_id m, m_committeeId m)) r"
    proof (cases "findIndex (\<lambda>m. m_id m = ?np) r")
      case None
      then show ?thesis by (simp add: l_def)
    next
      case (Some idx)
      from findIndex_Some [OF this] have "idx < length r" by simp
      from keyed_pairId_update [OF this] Some show ?thesis
        by (simp add: l_def)
    qed
  qed
  have "?F (fst (updateMember_members um om ms)) = ?F l"
  proof (cases "findIndex (\<lambda>m. m_id m = m_id um) l")
    case None
    then show ?thesis by (simp add: res)
  next
    case (Some idx)
    have "m_committeeId p = ?cid" if p: "p \<in> set l" "m_id p = m_id um" for p
    proof (rule within_keyed [OF keyed_l _ p])
      fix p' assume "p' \<in> set r" "m_id p' = m_id um"
      then show "m_committeeId p' = ?cid" using within_r [of p' "m_id um"] by simp
    qed
    from frame_update [OF Some this um'] Some show ?thesis
      by (simp add: res)
  qed
  with Fl Fr show ?thesis by simp
qed


lemma recomputedFor_consistent:
  assumes "recomputedFor cid s s'" and "durationConsistent s"
    and "filter (\<lambda>m. m_committeeId m \<noteq> cid) (members s')
         = filter (\<lambda>m. m_committeeId m \<noteq> cid) (members s)"
  shows "durationConsistent s'"
  using assms unfolding recomputedFor_def by blast

lemma calculateDuration_none:
  "list_all (\<lambda>m. m_committeeId m \<noteq> cid) ms \<Longrightarrow> calculateDuration cid ms = 0"
proof -
  assume "list_all (\<lambda>m. m_committeeId m \<noteq> cid) ms"
  then have "filter (\<lambda>m. m_committeeId m = cid) ms = []"
    by (auto simp: list_all_iff filter_empty_conv)
  then show ?thesis by (simp add: calculateDuration_def)
qed

lemma consistent_addCommittee:
  assumes "durationConsistent s" and "list_all (\<lambda>m. m_committeeId m \<noteq> newId) (members s)"
  shows "durationConsistent (addCommittee_upd newId c s)"
  using assms calculateDuration_none [OF assms(2)]
  by (simp add: durationConsistent_def addCommittee_upd_def)

lemma consistent_updateCommittee:
  assumes "durationConsistent s"
  shows "durationConsistent (updateCommittee_upd u s)"
proof (cases "find (\<lambda>c. c_id c = u_id u) (committees s)")
  case None
  with assms show ?thesis by (simp add: updateCommittee_upd_def)
next
  case (Some ex)
  then have ex: "ex \<in> set (committees s)" "c_id ex = u_id u"
    by (auto simp: find_Some_iff)
  with assms have "durationMonths ex = calculateDuration (u_id u) (members s)"
    by (auto simp: durationConsistent_def list_all_iff)
  with assms Some show ?thesis
    by (auto simp: updateCommittee_upd_def durationConsistent_def list_all_iff Let_def)
qed

lemma consistent_deleteCommittee:
  assumes "durationConsistent s"
  shows "durationConsistent (deleteCommittee_upd i s)"
proof -
  have "durationMonths c = calculateDuration (c_id c) (filter (\<lambda>m. m_committeeId m \<noteq> i) (members s))"
    if "c \<in> set (committees s)" "c_id c \<noteq> i" for c
    using assms that calculateDuration_filter [of "c_id c" i "members s"]
    by (simp add: durationConsistent_def list_all_iff)
  then show ?thesis
    by (simp add: durationConsistent_def deleteCommittee_upd_def list_all_iff)
qed

lemma consistent_addMember:
  assumes "durationConsistent s"
    and "touchesOnly (m_committeeId m) (members s) (optIds (pairId m))"
  shows "durationConsistent (addMember_upd newId m s)"
proof (rule recomputedFor_consistent [OF _ assms(1) frame_addMember [OF assms(2)]])
  show "recomputedFor (m_committeeId m) s (addMember_upd newId m s)"
    by (subst addMember_upd_shape) (rule recomputedFor_setDuration)
qed

lemma consistent_updateMember:
  assumes "durationConsistent s"
    and "find (\<lambda>x. m_id x = m_id um) (members s) = Some om"
    and "touchesOnly (m_committeeId um) (members s)
           (m_id um # optIds (pairId um) @ optIds (map_option m_id (partnerOf om (members s))))"
  shows "durationConsistent (updateMember_upd um s)"
proof (rule recomputedFor_consistent [OF _ assms(1)])
  show "recomputedFor (m_committeeId um) s (updateMember_upd um s)"
    by (subst updateMember_upd_shape [OF assms(2)]) (rule recomputedFor_setDuration)
  have "members (updateMember_upd um s) = fst (updateMember_members um om (members s))"
    using assms(2) by (simp add: updateMember_upd_def Let_def split_beta)
  with frame_updateMember [OF assms(3)]
  show "filter (\<lambda>m. m_committeeId m \<noteq> m_committeeId um) (members (updateMember_upd um s))
        = filter (\<lambda>m. m_committeeId m \<noteq> m_committeeId um) (members s)"
    by simp
qed

lemma consistent_deleteMember:
  assumes "durationConsistent s"
    and "find (\<lambda>x. m_id x = i) (members s) = Some dm"
    and "touchesOnly (m_committeeId dm) (members s)
           (i # optIds (map_option m_id (partnerOf dm (members s))))"
  shows "durationConsistent (deleteMember_upd i s)"
proof (cases "deleteMember_upd i s = s")
  case True
  with assms(1) show ?thesis by simp
next
  case False
  show ?thesis
  proof (rule recomputedFor_consistent [OF _ assms(1)])
    show "recomputedFor (m_committeeId dm) s (deleteMember_upd i s)"
      by (subst deleteMember_upd_shape [OF assms(2) False]) (rule recomputedFor_setDuration)
    have "members (deleteMember_upd i s) = deleteMember_members dm (members s)"
      using assms(2) False by (simp add: deleteMember_upd_def Let_def split: if_splits)
    with frame_deleteMember [OF assms(2,3)]
    show "filter (\<lambda>m. m_committeeId m \<noteq> m_committeeId dm) (members (deleteMember_upd i s))
          = filter (\<lambda>m. m_committeeId m \<noteq> m_committeeId dm) (members s)"
      by simp
  qed
qed

lemma consistent_other_ops:
  assumes "durationConsistent s"
  shows "durationConsistent (handleAddPayment_upd n p s)"
    and "durationConsistent (handleUpdatePayment_upd p i s)"
    and "durationConsistent (deletePayment_upd i s)"
    and "durationConsistent (handleAddDraw_upd n d s)"
    and "durationConsistent (handleUpdateDraw_upd d i s)"
    and "durationConsistent (deleteDraw_upd i s)"
  using assms
  by (simp_all add: durationConsistent_def handleAddPayment_upd_def handleUpdatePayment_upd_def
        deletePayment_upd_def handleAddDraw_upd_def handleUpdateDraw_upd_def deleteDraw_upd_def
        split_beta)

lemma durations_preserved:
  assumes "durationConsistent (state e)" and "keepsDurations op (state e)"
  shows "durationConsistent (state (mutate op e))"
proof (cases op)
  case (AddCommittee newId c)
  with assms show ?thesis
    by (simp add: addCommittee_def state_updateStateAndHistory keepsDurations_def
          consistent_addCommittee)
next
  case (UpdateCommittee u)
  with assms show ?thesis
    by (simp add: updateCommittee_def state_updateStateAndHistory consistent_updateCommittee)
next
  case (DeleteCommittee i)
  with assms show ?thesis
    by (simp add: deleteCommittee_def state_updateStateAndHistory consistent_deleteCommittee)
next
  case (AddMember newId m)
  with assms show ?thesis
    by (simp add: addMember_def state_updateStateAndHistory keepsDurations_def
          consistent_addMember)
next
  case (UpdateMember um)
  show ?thesis
  proof (cases "find (\<lambda>x. m_id x = m_id um) (members (state e))")
    case None
    with assms UpdateMember show ?thesis
      by (simp add: updateMember_def state_updateStateAndHistory updateMember_upd_def)
  next
    case (Some om)
    with assms UpdateMember show ?thesis
      by (simp add: updateMember_def state_updateStateAndHistory keepsDurations_def
            consistent_updateMember)
  qed
next
  case (DeleteMember i)
  show ?thesis
  proof (cases "find (\<lambda>x. m_id x = i) (members (state e))")
    case None
    with assms DeleteMember show ?thesis
      by (simp add: deleteMember_def state_updateStateAndHistory deleteMember_upd_def)
  next
    case (Some dm)
    with assms DeleteMember show ?thesis
      by (simp add: deleteMember_def state_updateStateAndHistory keepsDurations_def
            consistent_deleteMember)
  qed
next
  case (AddPayment newId p pid)
  with assms show ?thesis
    by (simp add: addPayment_def state_updateStateAndHistory consistent_other_ops)
next
  case (DeletePayment i)
  with assms show ?thesis
    by (simp add: deletePayment_def state_updateStateAndHistory consistent_other_ops)
next
  case (AddDraw newId d did)
  with assms show ?thesis
    by (simp add: addDraw_def state_updateStateAndHistory consistent_other_ops)
next
  case (DeleteDraw i)
  with assms show ?thesis
    by (simp add: deleteDraw_def state_updateStateAndHistory consistent_other_ops)
qed

lemma durations_preserved_all:
  "durationConsistent (state e) \<Longrightarrow> keepsDurationsAll ops e \<Longrightarrow>
   durationConsistent (state (mutations ops e))"
proof (induction ops arbitrary: e)
  case Nil
  then show ?case by simp
next
  case (Cons op ops)
  from Cons.prems have "durationConsistent (state (mutate op e))"
    by (simp add: durations_preserved)
  with Cons show ?case by simp
qed

text \<open>
  Claim C4 (as the code has it). The claim that every committee stores its derived
  duration after every member mutation fails: a member mutation recomputes the duration
  of one committee, the one the member it is given names. When \<open>updateMember\<close> moves the
  only member of committee \<open>x\<close> to committee \<open>y\<close>, \<open>y\<close> is recomputed and \<open>x\<close> keeps the
  duration 1, while the duration derived for \<open>x\<close> is 0.
\<close>

theorem stale_duration_counterexample:
  "map (\<lambda>c. (c_id c, durationMonths c)) (committees (state (mutations moveOps engine0)))
     = [(''x'', 1), (''y'', 1)]
   \<and> calculateDuration ''x'' (members (state (mutations moveOps engine0))) = 0
   \<and> \<not> durationConsistent (state (mutations moveOps engine0))"
  by (simp add: example_defs engine_op_defs state_updateStateAndHistory member_op_defs
        durationConsistent_def Let_def)

text \<open>
  Claim C4, amended. A member mutation that is applied recomputes the committee it
  names: after \<open>addMember\<close>, after \<open>updateMember\<close> of an existing member, and after a
  \<open>deleteMember\<close> that changed the snapshot, every committee whose identifier is the
  \<open>committeeId\<close> of the member given (of the member deleted) stores the duration derived
  from the member list after the call, every other committee is exactly as it was, the
  committees are in the same order, and payments and draws are as they were. A member
  mutation that is rejected, \<open>updateMember\<close> or \<open>deleteMember\<close> of an identifier no member
  has, leaves the snapshot as it was, as does a \<open>deleteMember\<close> that did not change it.
  So the equality of stored and derived duration, for every committee, is kept by every
  call that touches only members of the committee it names (and by every call that is
  not a member mutation, a new committee getting an unused identifier), and it holds
  after every sequence of such calls from a snapshot in which it holds, the empty one
  included.
\<close>

theorem member_mutation_recomputes:
  "recomputedFor (m_committeeId m) s (addMember_upd newId m s)
   \<and> (m_id um \<in> m_id ` set (members s1)
        \<longrightarrow> recomputedFor (m_committeeId um) s1 (updateMember_upd um s1))
   \<and> (m_id um \<notin> m_id ` set (members s1) \<longrightarrow> updateMember_upd um s1 = s1)
   \<and> (find (\<lambda>x. m_id x = i) (members s2) = Some dm \<and> deleteMember_upd i s2 \<noteq> s2
        \<longrightarrow> recomputedFor (m_committeeId dm) s2 (deleteMember_upd i s2))
   \<and> (i \<notin> m_id ` set (members s2) \<longrightarrow> deleteMember_upd i s2 = s2)
   \<and> (durationConsistent (state e) \<and> keepsDurations op (state e)
        \<longrightarrow> durationConsistent (state (mutate op e)))
   \<and> (durationConsistent (state e') \<and> keepsDurationsAll ops e'
        \<longrightarrow> durationConsistent (state (mutations ops e')))"
proof -
  have a: "recomputedFor (m_committeeId m) s (addMember_upd newId m s)"
    by (subst addMember_upd_shape) (rule recomputedFor_setDuration)
  have b: "recomputedFor (m_committeeId um) s1 (updateMember_upd um s1)"
    if "m_id um \<in> m_id ` set (members s1)"
  proof -
    from find_known_id [OF that] obtain om
      where om: "find (\<lambda>x. m_id x = m_id um) (members s1) = Some om" by blast
    show ?thesis
      by (subst updateMember_upd_shape [OF om]) (rule recomputedFor_setDuration)
  qed
  have c: "recomputedFor (m_committeeId dm) s2 (deleteMember_upd i s2)"
    if "find (\<lambda>x. m_id x = i) (members s2) = Some dm" "deleteMember_upd i s2 \<noteq> s2"
    by (subst deleteMember_upd_shape [OF that]) (rule recomputedFor_setDuration)
  have d: "durationConsistent (state (mutate op e))"
    if "durationConsistent (state e)" "keepsDurations op (state e)"
    using that by (rule durations_preserved)
  have e: "durationConsistent (state (mutations ops e'))"
    if "durationConsistent (state e')" "keepsDurationsAll ops e'"
    using that by (rule durations_preserved_all)
  have b': "m_id um \<notin> m_id ` set (members s1) \<longrightarrow> updateMember_upd um s1 = s1"
    by (simp add: updateMember_upd_def find_unknown_id)
  have c': "i \<notin> m_id ` set (members s2) \<longrightarrow> deleteMember_upd i s2 = s2"
    by (simp add: deleteMember_upd_def find_unknown_id)
  from b have b'': "m_id um \<in> m_id ` set (members s1)
        \<longrightarrow> recomputedFor (m_committeeId um) s1 (updateMember_upd um s1)" by blast
  from c have c'': "find (\<lambda>x. m_id x = i) (members s2) = Some dm \<and> deleteMember_upd i s2 \<noteq> s2
        \<longrightarrow> recomputedFor (m_committeeId dm) s2 (deleteMember_upd i s2)" by blast
  from d have d': "durationConsistent (state e) \<and> keepsDurations op (state e)
        \<longrightarrow> durationConsistent (state (mutate op e))" by blast
  from e have e'': "durationConsistent (state e') \<and> keepsDurationsAll ops e'
        \<longrightarrow> durationConsistent (state (mutations ops e'))" by blast
  show ?thesis
    by (intro conjI) (rule a, rule b'', rule b', rule c'', rule c', rule d', rule e'')
qed

theorem member_mutation_recomputes_witness:
  "recomputedFor ''c'' walkState (addMember_upd ''f3'' (memberOf [] ''c'' FULL None) walkState)
   \<and> recomputedFor ''c'' walkState (updateMember_upd walkEdit walkState)
   \<and> recomputedFor ''c'' walkState (deleteMember_upd ''f1'' walkState)
   \<and> durationConsistent (state (mutate (UpdateMember walkEdit) (mutations walkOps engine0)))
   \<and> durationConsistent (state (mutations (walkOps @ [UpdateMember walkEdit]) engine0))
   \<and> map durationMonths (committees walkState) = [2]
   \<and> map durationMonths (committees (updateMember_upd walkEdit walkState)) = [3]
   \<and> updateMember_upd (memberOf ''zz'' ''c'' FULL None) walkState = walkState
   \<and> deleteMember_upd ''zz'' walkState = walkState"
  using member_mutation_recomputes
    [of "memberOf [] ''c'' FULL None" walkState "''f3''" walkEdit walkState "''f1''" walkState
        "memberOf [] ''c'' FULL None\<lparr>m_id := ''f1''\<rparr>"
        "mutations walkOps engine0" "UpdateMember walkEdit"
        engine0 "walkOps @ [UpdateMember walkEdit]"]
    member_mutation_recomputes
    [of "memberOf [] ''c'' FULL None" walkState "''f3''" "memberOf ''zz'' ''c'' FULL None"
        walkState "''zz''" walkState]
  by (simp add: example_defs engine_op_defs state_updateStateAndHistory
        member_op_defs durationConsistent_def Let_def keepsDurations_def touchesOnly_def
        optIds_def)

subsection \<open>Duration derivation\<close>

lemma map_of_groupPush:
  "map_of (groupPush acc k m) =
     (map_of acc)(k \<mapsto> (case map_of acc k of None \<Rightarrow> [m] | Some g \<Rightarrow> g @ [m]))"
  by (induction acc k m rule: groupPush.induct) (auto simp: fun_eq_iff)

lemma keys_groupPush_list:
  "map fst (groupPush acc k m) = (if k \<in> fst ` set acc then map fst acc else map fst acc @ [k])"
  by (induction acc k m rule: groupPush.induct) auto

lemma distinct_groupPush:
  "distinct (map fst acc) \<Longrightarrow> distinct (map fst (groupPush acc k m))"
  by (simp add: keys_groupPush_list)

lemma grouping_filter:
  "foldl (\<lambda>acc m. if C m then groupPush acc (f m) m else acc) acc xs
   = foldl (\<lambda>acc m. groupPush acc (f m) m) acc (filter C xs)"
  by (induction xs arbitrary: acc) simp_all

text \<open>What the grouping loop has built after a list of members.\<close>

lemma grouping_invariant:
  fixes f :: "Member \<Rightarrow> string"
  defines "G \<equiv> \<lambda>xs. foldl (\<lambda>acc m. groupPush acc (f m) m) [] xs"
  shows "distinct (map fst (G xs))
         \<and> fst ` set (G xs) = f ` set xs
         \<and> (\<forall>k\<in>f ` set xs. map_of (G xs) k = Some (filter (\<lambda>m. f m = k) xs))"
proof (induction xs rule: rev_induct)
  case Nil
  then show ?case by (simp add: G_def)
next
  case (snoc m xs)
  have step: "G (xs @ [m]) = groupPush (G xs) (f m) m"
    by (simp add: G_def)
  from snoc have d: "distinct (map fst (G xs))"
    and keys: "fst ` set (G xs) = f ` set xs"
    and look: "\<And>k. k \<in> f ` set xs \<Longrightarrow> map_of (G xs) k = Some (filter (\<lambda>m. f m = k) xs)"
    by blast+
  have 1: "distinct (map fst (G (xs @ [m])))"
    unfolding step by (rule distinct_groupPush [OF d])
  have 2: "fst ` set (G (xs @ [m])) = f ` set (xs @ [m])"
    unfolding step keys_groupPush keys by auto
  have 3: "map_of (G (xs @ [m])) k = Some (filter (\<lambda>m. f m = k) (xs @ [m]))"
    if k: "k \<in> f ` set (xs @ [m])" for k
  proof (cases "k = f m")
    case True
    show ?thesis
    proof (cases "f m \<in> f ` set xs")
      case True
      with look [OF this] \<open>k = f m\<close> show ?thesis
        unfolding step map_of_groupPush by simp
    next
      case False
      then have "f m \<notin> fst ` set (G xs)"
        using keys by simp
      then have "map_of (G xs) (f m) = None"
        by (simp add: map_of_eq_None_iff)
      moreover have "filter (\<lambda>x. f x = f m) xs = []"
        unfolding filter_empty_conv using False by (metis imageI)
      ultimately show ?thesis
        using \<open>k = f m\<close> unfolding step map_of_groupPush by simp
    qed
  next
    case False
    with k have "k \<in> f ` set xs" by auto
    from look [OF this] False show ?thesis
      unfolding step map_of_groupPush by simp
  qed
  show ?case
    by (intro conjI ballI) (rule 1, rule 2, rule 3)
qed

lemma snd_by_lookup:
  "distinct (map fst acc) \<Longrightarrow> map snd acc = map (\<lambda>k. the (map_of acc k)) (map fst acc)"
proof (induction acc)
  case Nil
  then show ?case by simp
next
  case (Cons p acc)
  obtain a b where p: "p = (a, b)" by (cases p)
  from Cons.prems p have a: "a \<notin> set (map fst acc)" and d: "distinct (map fst acc)"
    by simp_all
  have "map (\<lambda>k. the (map_of ((a, b) # acc) k)) (map fst acc)
        = map (\<lambda>k. the (map_of acc k)) (map fst acc)"
  proof (rule map_cong [OF refl])
    fix k assume "k \<in> set (map fst acc)"
    with a have "k \<noteq> a" by blast
    then show "the (map_of ((a, b) # acc) k) = the (map_of acc k)" by simp
  qed
  with Cons.IH [OF d] p show ?case by simp
qed

lemma count_groups:
  fixes f :: "Member \<Rightarrow> string"
  shows "length (filter (\<lambda>g. length g = 2)
           (map snd (foldl (\<lambda>acc m. groupPush acc (f m) m) [] xs)))
         = card {k \<in> f ` set xs. length (filter (\<lambda>m. f m = k) xs) = 2}"
proof -
  let ?G = "foldl (\<lambda>acc m. groupPush acc (f m) m) [] xs"
  from grouping_invariant [of f xs]
  have d: "distinct (map fst ?G)"
    and keys: "fst ` set ?G = f ` set xs"
    and look: "\<And>k. k \<in> f ` set xs \<Longrightarrow> map_of ?G k = Some (filter (\<lambda>m. f m = k) xs)"
    by blast+
  have "length (filter (\<lambda>g. length g = 2) (map snd ?G))
        = length (filter (\<lambda>k. length (the (map_of ?G k)) = 2) (map fst ?G))"
    by (subst snd_by_lookup [OF d]) (simp add: filter_map comp_def)
  also have "\<dots> = length (filter (\<lambda>k. length (filter (\<lambda>m. f m = k) xs) = 2) (map fst ?G))"
  proof -
    have "filter (\<lambda>k. length (the (map_of ?G k)) = 2) (map fst ?G)
          = filter (\<lambda>k. length (filter (\<lambda>m. f m = k) xs) = 2) (map fst ?G)"
    proof (rule filter_cong [OF refl])
      fix k assume "k \<in> set (map fst ?G)"
      then have "k \<in> f ` set xs" using keys by simp
      from look [OF this]
      show "(length (the (map_of ?G k)) = 2) = (length (filter (\<lambda>m. f m = k) xs) = 2)"
        by simp
    qed
    then show ?thesis by simp
  qed
  also have "\<dots> = card ({k. length (filter (\<lambda>m. f m = k) xs) = 2} \<inter> set (map fst ?G))"
    by (rule distinct_length_filter [OF d])
  also have "{k. length (filter (\<lambda>m. f m = k) xs) = 2} \<inter> set (map fst ?G)
             = {k \<in> f ` set xs. length (filter (\<lambda>m. f m = k) xs) = 2}"
    using keys by auto
  finally show ?thesis .
qed

lemma completePairs_card:
  "completePairs hs = card {k \<in> pairId ` set hs. length (filter (\<lambda>m. pairId m = k) hs) = 2}"
proof -
  have "completePairs hs
        = card ({k. length (filter (\<lambda>m. pairId m = k) hs) = 2} \<inter> set (remdups (map pairId hs)))"
    unfolding completePairs_def by (rule distinct_length_filter) simp
  also have "{k. length (filter (\<lambda>m. pairId m = k) hs) = 2} \<inter> set (remdups (map pairId hs))
             = {k \<in> pairId ` set hs. length (filter (\<lambda>m. pairId m = k) hs) = 2}"
    by auto
  finally show ?thesis .
qed

lemma count_groups_completePairs:
  assumes "\<And>m. m \<in> set hs \<Longrightarrow> truthy (pairId m)"
  shows "length (filter (\<lambda>g. length g = 2)
           (map snd (foldl (\<lambda>acc m. groupPush acc (the (pairId m)) m) [] hs)))
         = completePairs hs"
proof -
  let ?f = "\<lambda>m. the (pairId m)"
  have some: "pairId m = Some (?f m)" if "m \<in> set hs" for m
    using assms [OF that] by (auto simp: truthy_def split: option.splits)
  have same: "filter (\<lambda>m. pairId m = Some k) hs = filter (\<lambda>m. ?f m = k) hs" for k
    by (rule filter_cong [OF refl]) (use some in force)
  have "{ko \<in> pairId ` set hs. length (filter (\<lambda>m. pairId m = ko) hs) = 2}
        = Some ` {k \<in> ?f ` set hs. length (filter (\<lambda>m. ?f m = k) hs) = 2}"
    (is "?A = Some ` ?B")
  proof
    show "?A \<subseteq> Some ` ?B"
    proof
      fix ko assume "ko \<in> ?A"
      then obtain m where m: "m \<in> set hs" "ko = pairId m"
        and two: "length (filter (\<lambda>m. pairId m = ko) hs) = 2" by auto
      from m some have ko: "ko = Some (?f m)" by simp
      with two same [of "?f m"] have "length (filter (\<lambda>x. ?f x = ?f m) hs) = 2" by simp
      with m have "?f m \<in> ?B" by blast
      with ko show "ko \<in> Some ` ?B" by blast
    qed
    show "Some ` ?B \<subseteq> ?A"
    proof
      fix ko assume "ko \<in> Some ` ?B"
      then obtain k where k: "ko = Some k" "k \<in> ?f ` set hs"
        and two: "length (filter (\<lambda>m. ?f m = k) hs) = 2" by auto
      from k obtain m where m: "m \<in> set hs" "k = ?f m" by auto
      with some k have "ko = pairId m" by simp
      moreover from two same [of k] k have "length (filter (\<lambda>m. pairId m = ko) hs) = 2" by simp
      ultimately show "ko \<in> ?A" using m by blast
    qed
  qed
  then have "card ?A = card ?B"
    by (simp add: card_image)
  then show ?thesis
    unfolding count_groups completePairs_card by simp
qed

lemma completePairs_short:
  assumes "length hs < 2"
  shows "completePairs (filter P hs) = 0"
proof -
  have lt: "length (filter (\<lambda>m. pairId m = k) (filter P hs)) < 2" for k
  proof -
    have "length (filter (\<lambda>m. pairId m = k) (filter P hs)) \<le> length (filter P hs)"
      by (rule length_filter_le)
    also have "\<dots> \<le> length hs"
      by (rule length_filter_le)
    finally have "length (filter (\<lambda>m. pairId m = k) (filter P hs)) \<le> length hs" .
    then show ?thesis using assms by (rule le_less_trans)
  qed
  have "length (filter (\<lambda>m. pairId m = k) (filter P hs)) \<noteq> 2" for k
    using lt [of k] by linarith
  then have "filter (\<lambda>k. length (filter (\<lambda>m. pairId m = k) (filter P hs)) = 2)
               (remdups (map pairId (filter P hs))) = []"
    unfolding filter_empty_conv by blast
  then show ?thesis by (simp add: completePairs_def)
qed

lemma membersByPairId_pairs:
  "length (filter (\<lambda>group. length group = 2) (map snd (membersByPairId hs)))
   = completePairs (filter (\<lambda>m. truthy (pairId m)) hs)"
  unfolding membersByPairId_def grouping_filter
  by (rule count_groups_completePairs) simp

text \<open>Record keys are kept by every call that adds its member under a record key.\<close>

lemma keyedPair_truthy: "keyedPair m \<Longrightarrow> truthy (pairId m)"
  by (auto simp: keyedPair_def truthy_def recordKey_def split: option.splits)

lemma keyedPair_update [simp]: "keyedPair (m\<lparr>pairId := Some k\<rparr>) = recordKey k"
  by (simp add: keyedPair_def)

lemma wellKeyed_nth:
  "wellKeyed ms \<Longrightarrow> i < length ms \<Longrightarrow>
   recordKey (m_id (ms ! i)) \<and> (shareType (ms ! i) = FULL \<or> keyedPair (ms ! i))"
  by (simp add: wellKeyed_def list_all_length)

lemma wellKeyed_update:
  assumes "wellKeyed ms" and "recordKey (m_id y)" and "shareType y = FULL \<or> keyedPair y"
  shows "wellKeyed (ms[i := y])"
proof -
  have "set (ms[i := y]) \<subseteq> insert y (set ms)" by (rule set_update_subset_insert)
  with assms show ?thesis by (auto simp: wellKeyed_def list_all_iff)
qed

lemma wellKeyed_pairId_update:
  assumes "wellKeyed ms" and "i < length ms" and "recordKey k"
  shows "wellKeyed (ms[i := (ms ! i)\<lparr>pairId := Some k\<rparr>])"
  using wellKeyed_nth [OF assms(1,2)] assms(3)
  by (intro wellKeyed_update [OF assms(1)]) simp_all

lemma wellKeyed_found:
  assumes "wellKeyed ms" and "findIndex (\<lambda>m. m_id m = k) ms = Some i"
  shows "i < length ms" and "recordKey k"
proof -
  from findIndex_Some [OF assms(2)] show i: "i < length ms" and "recordKey k"
    using wellKeyed_nth [OF assms(1)] by auto
qed

lemma min_recordKey:
  "recordKey a \<Longrightarrow> recordKey b \<Longrightarrow> recordKey (if a < b then a else b)"
  by simp

lemma wellKeyed_resetPartner:
  assumes "wellKeyed ms"
  shows "wellKeyed (resetPartner partner ms)"
proof (cases partner)
  case None
  with assms show ?thesis by (simp add: resetPartner_def)
next
  case (Some q)
  show ?thesis
  proof (cases "findIndex (\<lambda>m. m_id m = m_id q) ms")
    case None
    with assms \<open>partner = Some q\<close> show ?thesis by (simp add: resetPartner_def)
  next
    case (Some i)
    from wellKeyed_found [OF assms Some] wellKeyed_pairId_update [OF assms]
    show ?thesis using Some \<open>partner = Some q\<close> by (simp add: resetPartner_def)
  qed
qed

lemma wellKeyed_addMember:
  assumes wk: "wellKeyed (members s)" and new: "recordKey newId"
  shows "wellKeyed (members (addMember_upd newId m s))"
proof -
  let ?nm = "m\<lparr>m_id := newId\<rparr>"
  let ?ms = "members s"
  have mem: "members (addMember_upd newId m s)
             = fst (addMember_pairing ?nm ?ms) @ [snd (addMember_pairing ?nm ?ms)]"
    by (simp add: addMember_upd_def Let_def split_beta)
  have "\<exists>l u. addMember_pairing ?nm ?ms = (l, u) \<and> wellKeyed l \<and> recordKey (m_id u)
              \<and> (shareType u = FULL \<or> keyedPair u)"
  proof (cases "shareType m = HALF")
    case False
    then have "shareType m = FULL" by (cases "shareType m") simp_all
    with wk new show ?thesis by (simp add: addMember_pairing_def)
  next
    case half: True
    show ?thesis
    proof (cases "truthy (pairId m)")
      case False
      with half wk new show ?thesis by (simp add: addMember_pairing_def)
    next
      case True
      then obtain k where k: "pairId m = Some k" "k \<noteq> []"
        by (auto simp: truthy_def split: option.splits)
      show ?thesis
      proof (cases "findIndex (\<lambda>x. m_id x = k) ?ms")
        case None
        with half True k wk new show ?thesis by (simp add: addMember_pairing_def)
      next
        case (Some i)
        from wellKeyed_found [OF wk Some] have i: "i < length ?ms" and rk: "recordKey k" .
        define c where "c = (if newId < k then newId else k)"
        from new rk have c: "recordKey c" by (simp add: c_def)
        have eq: "addMember_pairing ?nm ?ms
                  = (?ms[i := (?ms ! i)\<lparr>pairId := Some c\<rparr>], ?nm\<lparr>pairId := Some c\<rparr>)"
          using half True k Some by (simp add: addMember_pairing_def Let_def c_def)
        from wellKeyed_pairId_update [OF wk i c] c new show ?thesis
          unfolding eq by simp
      qed
    qed
  qed
  then show ?thesis
    unfolding mem by (auto simp: wellKeyed_def)
qed

lemma wellKeyed_filter: "wellKeyed ms \<Longrightarrow> wellKeyed (filter P ms)"
  by (simp add: wellKeyed_def list_all_iff)

lemma wellKeyed_deleteMember:
  assumes "wellKeyed (members s)"
  shows "wellKeyed (members (deleteMember_upd i s))"
proof (cases "find (\<lambda>m. m_id m = i) (members s)")
  case None
  with assms show ?thesis by (simp add: deleteMember_upd_def)
next
  case (Some dm)
  have "wellKeyed (deleteMember_members dm (members s))"
    unfolding deleteMember_members_def
    by (intro wellKeyed_resetPartner wellKeyed_filter assms)
  with assms Some show ?thesis
    by (simp add: deleteMember_upd_def Let_def)
qed

lemma wellKeyed_updateMember:
  assumes wk: "wellKeyed (members s)"
  shows "wellKeyed (members (updateMember_upd um s))"
proof (cases "find (\<lambda>m. m_id m = m_id um) (members s)")
  case None
  with assms show ?thesis by (simp add: updateMember_upd_def)
next
  case (Some om)
  let ?ms = "members s"
  define np where "np = (case pairId um of None \<Rightarrow> [] | Some s \<Rightarrow> s)"
  from Some have "om \<in> set ?ms" "m_id om = m_id um"
    by (auto simp: find_Some_iff)
  with wk have id: "recordKey (m_id um)"
    by (auto simp: wellKeyed_def list_all_iff)
  define r where "r = resetPartner (partnerOf om ?ms) ?ms"
  have wr: "wellKeyed r"
    unfolding r_def by (rule wellKeyed_resetPartner [OF wk])
  have "\<exists>l k. wellKeyed l \<and> recordKey k
          \<and> fst (updateMember_members um om ?ms)
            = (case findIndex (\<lambda>m. m_id m = m_id um) l of
                 Some i \<Rightarrow> l[i := um\<lparr>pairId := Some k\<rparr>] | None \<Rightarrow> l)"
  proof (cases "np \<noteq> [] \<and> findIndex (\<lambda>m. m_id m = np) r \<noteq> None")
    case False
    then have "fst (updateMember_members um om ?ms)
            = (case findIndex (\<lambda>m. m_id m = m_id um) r of
                 Some i \<Rightarrow> r[i := um\<lparr>pairId := Some (m_id um)\<rparr>] | None \<Rightarrow> r)"
      unfolding updateMember_members_def Let_def np_def [symmetric] r_def [symmetric]
      by (auto split: option.splits)
    with wr id show ?thesis by blast
  next
    case True
    then obtain idx where idx: "findIndex (\<lambda>m. m_id m = np) r = Some idx" and ne: "np \<noteq> []"
      by auto
    from wellKeyed_found [OF wr idx] have i: "idx < length r" and rk: "recordKey np" .
    define c where "c = (if m_id um < np then m_id um else np)"
    from id rk have c: "recordKey c" by (simp add: c_def)
    have "fst (updateMember_members um om ?ms)
            = (case findIndex (\<lambda>m. m_id m = m_id um) (r[idx := (r ! idx)\<lparr>pairId := Some c\<rparr>]) of
                 Some i \<Rightarrow> (r[idx := (r ! idx)\<lparr>pairId := Some c\<rparr>])[i := um\<lparr>pairId := Some c\<rparr>]
               | None \<Rightarrow> r[idx := (r ! idx)\<lparr>pairId := Some c\<rparr>])"
      unfolding updateMember_members_def Let_def np_def [symmetric] r_def [symmetric]
        c_def [symmetric]
      using idx ne by (simp split: option.splits)
    with wellKeyed_pairId_update [OF wr i c] c show ?thesis by blast
  qed
  then obtain l k where l: "wellKeyed l" and k: "recordKey k"
    and res: "fst (updateMember_members um om ?ms)
            = (case findIndex (\<lambda>m. m_id m = m_id um) l of
                 Some i \<Rightarrow> l[i := um\<lparr>pairId := Some k\<rparr>] | None \<Rightarrow> l)"
    by blast
  have "wellKeyed (fst (updateMember_members um om ?ms))"
    unfolding res using l k id by (auto split: option.splits intro!: wellKeyed_update)
  with Some show ?thesis
    by (simp add: updateMember_upd_def Let_def split_beta)
qed

lemma members_other_ops [simp]:
  "members (addCommittee_upd n c s) = members s"
  "members (updateCommittee_upd u s) = members s"
  "members (handleAddPayment_upd n p s) = members s"
  "members (handleUpdatePayment_upd p i s) = members s"
  "members (deletePayment_upd i s) = members s"
  "members (handleAddDraw_upd n d s) = members s"
  "members (handleUpdateDraw_upd d i s) = members s"
  "members (deleteDraw_upd i s) = members s"
  by (simp_all add: addCommittee_upd_def updateCommittee_upd_def handleAddPayment_upd_def
        handleUpdatePayment_upd_def deletePayment_upd_def handleAddDraw_upd_def
        handleUpdateDraw_upd_def deleteDraw_upd_def Let_def split_beta split: option.splits)

lemma wellKeyed_mutate:
  assumes "wellKeyed (members (state e))" and "freshKey op"
  shows "wellKeyed (members (state (mutate op e)))"
proof (cases op)
  case (AddMember newId m)
  with assms show ?thesis
    by (simp add: addMember_def state_updateStateAndHistory freshKey_def wellKeyed_addMember)
next
  case (UpdateMember um)
  with assms show ?thesis
    by (simp add: updateMember_def state_updateStateAndHistory wellKeyed_updateMember)
next
  case (DeleteMember i)
  with assms show ?thesis
    by (simp add: deleteMember_def state_updateStateAndHistory wellKeyed_deleteMember)
next
  case (DeleteCommittee i)
  with assms show ?thesis
    by (simp add: deleteCommittee_def state_updateStateAndHistory deleteCommittee_upd_def
          wellKeyed_filter)
qed (use assms in \<open>simp_all add: engine_op_defs state_updateStateAndHistory\<close>)

lemma wellKeyed_mutations:
  "wellKeyed (members (state e)) \<Longrightarrow> list_all freshKey ops \<Longrightarrow>
   wellKeyed (members (state (mutations ops e)))"
proof (induction ops arbitrary: e)
  case Nil
  then show ?case by simp
next
  case (Cons op ops)
  from Cons.prems have "wellKeyed (members (state (mutate op e)))"
    by (simp add: wellKeyed_mutate)
  with Cons show ?case by simp
qed

lemma wellKeyed_half:
  assumes "wellKeyed ms"
  shows "list_all keyedPair
           (filter (\<lambda>m. shareType m = HALF) (filter (\<lambda>m. m_committeeId m = cid) ms))"
  using assms by (auto simp: wellKeyed_def list_all_iff)

text \<open>The loop of \<open>calculateDuration\<close> counts the \<open>pairId\<close> values carried by exactly two members.\<close>

lemma calculateDuration_formula:
  "calculateDuration cid ms
     = length (filter (\<lambda>m. shareType m = FULL) (filter (\<lambda>m. m_committeeId m = cid) ms))
       + completePairs (filter (\<lambda>m. truthy (pairId m))
           (filter (\<lambda>m. shareType m = HALF) (filter (\<lambda>m. m_committeeId m = cid) ms)))"
proof -
  let ?half = "filter (\<lambda>m. shareType m = HALF) (filter (\<lambda>m. m_committeeId m = cid) ms)"
  show ?thesis
  proof (cases "length ?half < 2")
    case True
    then have "calculateDuration cid ms
      = length (filter (\<lambda>m. shareType m = FULL) (filter (\<lambda>m. m_committeeId m = cid) ms))"
      by (simp only: calculateDuration_def Let_def if_True)
    then show ?thesis
      by (simp only: completePairs_short [OF True] add_0_right)
  next
    case False
    then have "calculateDuration cid ms
      = length (filter (\<lambda>m. shareType m = FULL) (filter (\<lambda>m. m_committeeId m = cid) ms))
        + length (filter (\<lambda>group. length group = 2) (map snd (membersByPairId ?half)))"
      by (simp only: calculateDuration_def Let_def if_False)
    then show ?thesis
      by (simp only: membersByPairId_pairs)
  qed
qed

lemma calculateDuration_keyed:
  assumes "list_all keyedPair
             (filter (\<lambda>m. shareType m = HALF) (filter (\<lambda>m. m_committeeId m = cid) ms))"
  shows "calculateDuration cid ms = deriveDuration cid ms"
proof -
  let ?half = "filter (\<lambda>m. shareType m = HALF) (filter (\<lambda>m. m_committeeId m = cid) ms)"
  from assms have "\<forall>m\<in>set ?half. truthy (pairId m)"
    unfolding list_all_iff by (blast intro: keyedPair_truthy)
  then have "filter (\<lambda>m. truthy (pairId m)) ?half = ?half"
    by (rule filter_True)
  then show ?thesis
    unfolding calculateDuration_formula by (simp add: deriveDuration_def Let_def)
qed

lemma completePairs_lone:
  assumes "length (filter (\<lambda>x. pairId x = pairId m) hs) \<le> 1"
  shows "completePairs (filter (\<lambda>x. x \<noteq> m) hs) = completePairs hs"
proof -
  let ?hs' = "filter (\<lambda>x. x \<noteq> m) hs"
  have same: "filter (\<lambda>x. pairId x = k) ?hs' = filter (\<lambda>x. pairId x = k) hs"
    if "k \<noteq> pairId m" for k
    unfolding filter_filter by (rule filter_cong [OF refl]) (use that in auto)
  have le: "length (filter (\<lambda>x. pairId x = pairId m) ?hs') \<le> 1"
  proof -
    have "length (filter (\<lambda>x. pairId x = pairId m) ?hs')
          = length (filter (\<lambda>x. x \<noteq> m) (filter (\<lambda>x. pairId x = pairId m) hs))"
      unfolding filter_filter by (simp add: conj_commute)
    also have "\<dots> \<le> length (filter (\<lambda>x. pairId x = pairId m) hs)"
      by (rule length_filter_le)
    finally show ?thesis using assms by (rule order_trans)
  qed
  have "{k \<in> pairId ` set ?hs'. length (filter (\<lambda>x. pairId x = k) ?hs') = 2}
        = {k \<in> pairId ` set hs. length (filter (\<lambda>x. pairId x = k) hs) = 2}"
    (is "?A = ?B")
  proof (intro set_eqI iffI)
    fix k assume k: "k \<in> ?A"
    with le have ne: "k \<noteq> pairId m" by auto
    from k same [OF ne] show "k \<in> ?B" by auto
  next
    fix k assume k: "k \<in> ?B"
    with assms have ne: "k \<noteq> pairId m" by auto
    from k obtain x where "x \<in> set hs" "k = pairId x" by auto
    with ne have "x \<in> set ?hs'" by auto
    with \<open>k = pairId x\<close> have "k \<in> pairId ` set ?hs'" by blast
    with k same [OF ne] show "k \<in> ?A" by simp
  qed
  then show ?thesis
    unfolding completePairs_card by simp
qed

lemma deriveDuration_lone:
  assumes "shareType m = HALF"
    and "length (filter (\<lambda>x. pairId x = pairId m)
           (filter (\<lambda>m. shareType m = HALF) (filter (\<lambda>m. m_committeeId m = cid) ms))) \<le> 1"
  shows "deriveDuration cid (filter (\<lambda>x. x \<noteq> m) ms) = deriveDuration cid ms"
proof -
  let ?cm = "filter (\<lambda>m. m_committeeId m = cid) ms"
  have c: "filter (\<lambda>m. m_committeeId m = cid) (filter (\<lambda>x. x \<noteq> m) ms) = filter (\<lambda>x. x \<noteq> m) ?cm"
    unfolding filter_filter by (simp add: conj_commute)
  have h: "filter (\<lambda>m. shareType m = HALF) (filter (\<lambda>x. x \<noteq> m) ?cm)
           = filter (\<lambda>x. x \<noteq> m) (filter (\<lambda>m. shareType m = HALF) ?cm)"
    unfolding filter_filter by (rule filter_cong [OF refl]) auto
  have f: "filter (\<lambda>m. shareType m = FULL) (filter (\<lambda>x. x \<noteq> m) ?cm)
           = filter (\<lambda>m. shareType m = FULL) ?cm"
    unfolding filter_filter by (rule filter_cong [OF refl]) (use assms(1) in auto)
  show ?thesis
    unfolding deriveDuration_def Let_def c h f completePairs_lone [OF assms(2)] ..
qed

text \<open>
  Claim C3. For every committee and member list in which the \<open>pairId\<close> of every
  half-share member of the committee is a record key, the duration is \<open>F + P\<close>, the
  derived duration of the specification: \<open>F\<close> is the number of full-share members of the
  committee and \<open>P\<close> the number of \<open>pairId\<close> values that exactly two of its half-share
  members carry. A lone half-share member contributes 0: the duration is the same
  without a half-share member whose \<open>pairId\<close> no other half-share member of the committee
  carries, and it is \<open>F\<close> when the committee has at most one half-share member. A committee
  with no members has duration 0. The member lists the engine reaches from a well-keyed
  one, the empty one for instance, by calls whose new identifiers are record keys are
  such lists, for every committee.
\<close>

theorem calculateDuration_counts:
  "(list_all keyedPair
      (filter (\<lambda>m. shareType m = HALF) (filter (\<lambda>m. m_committeeId m = cid) ms))
    \<longrightarrow> calculateDuration cid ms = deriveDuration cid ms)
   \<and> (list_all keyedPair
        (filter (\<lambda>m. shareType m = HALF) (filter (\<lambda>m. m_committeeId m = cid) ms))
      \<and> shareType m = HALF
      \<and> length (filter (\<lambda>x. pairId x = pairId m)
           (filter (\<lambda>m. shareType m = HALF) (filter (\<lambda>m. m_committeeId m = cid) ms))) \<le> 1
      \<longrightarrow> calculateDuration cid (filter (\<lambda>x. x \<noteq> m) ms) = calculateDuration cid ms)
   \<and> (length (filter (\<lambda>m. shareType m = HALF) (filter (\<lambda>m. m_committeeId m = cid) ms)) \<le> 1
      \<longrightarrow> calculateDuration cid ms
          = length (filter (\<lambda>m. shareType m = FULL) (filter (\<lambda>m. m_committeeId m = cid) ms)))
   \<and> (filter (\<lambda>m. m_committeeId m = cid) ms = [] \<longrightarrow> calculateDuration cid ms = 0)
   \<and> (wellKeyed (members (state e)) \<and> list_all freshKey ops
      \<longrightarrow> calculateDuration cid (members (state (mutations ops e)))
          = deriveDuration cid (members (state (mutations ops e))))"
proof -
  let ?half = "\<lambda>ms. filter (\<lambda>m. shareType m = HALF) (filter (\<lambda>m. m_committeeId m = cid) ms)"
  have a: "list_all keyedPair (?half ms) \<longrightarrow> calculateDuration cid ms = deriveDuration cid ms"
    by (blast intro: calculateDuration_keyed)
  have b: "calculateDuration cid (filter (\<lambda>x. x \<noteq> m) ms) = calculateDuration cid ms"
    if k: "list_all keyedPair (?half ms)" and h: "shareType m = HALF"
      and l: "length (filter (\<lambda>x. pairId x = pairId m) (?half ms)) \<le> 1"
  proof -
    have "set (?half (filter (\<lambda>x. x \<noteq> m) ms)) \<subseteq> set (?half ms)" by auto
    with k have "list_all keyedPair (?half (filter (\<lambda>x. x \<noteq> m) ms))"
      unfolding list_all_iff by blast
    then have "calculateDuration cid (filter (\<lambda>x. x \<noteq> m) ms)
               = deriveDuration cid (filter (\<lambda>x. x \<noteq> m) ms)"
      by (rule calculateDuration_keyed)
    also have "\<dots> = deriveDuration cid ms"
      by (rule deriveDuration_lone [OF h l])
    also have "\<dots> = calculateDuration cid ms"
      by (rule calculateDuration_keyed [OF k, symmetric])
    finally show ?thesis .
  qed
  have c: "length (?half ms) \<le> 1
      \<longrightarrow> calculateDuration cid ms
          = length (filter (\<lambda>m. shareType m = FULL) (filter (\<lambda>m. m_committeeId m = cid) ms))"
    by (simp add: calculateDuration_def Let_def)
  have d: "filter (\<lambda>m. m_committeeId m = cid) ms = [] \<longrightarrow> calculateDuration cid ms = 0"
    by (simp add: calculateDuration_def)
  have e: "calculateDuration cid (members (state (mutations ops e)))
          = deriveDuration cid (members (state (mutations ops e)))"
    if "wellKeyed (members (state e))" "list_all freshKey ops"
    by (intro calculateDuration_keyed wellKeyed_half wellKeyed_mutations that)
  from b have b': "list_all keyedPair (?half ms) \<and> shareType m = HALF
      \<and> length (filter (\<lambda>x. pairId x = pairId m) (?half ms)) \<le> 1
      \<longrightarrow> calculateDuration cid (filter (\<lambda>x. x \<noteq> m) ms) = calculateDuration cid ms"
    by blast
  from e have e': "wellKeyed (members (state e)) \<and> list_all freshKey ops
      \<longrightarrow> calculateDuration cid (members (state (mutations ops e)))
          = deriveDuration cid (members (state (mutations ops e)))"
    by blast
  show ?thesis
    by (intro conjI) (rule a, rule b', rule c, rule d, rule e')
qed

lemma walkState_members:
  "members walkState
   = [(memberOf [] ''c'' FULL None)\<lparr>m_id := ''f1''\<rparr>, (memberOf [] ''c'' FULL None)\<lparr>m_id := ''f2''\<rparr>,
      (memberOf [] ''c'' HALF (Some ''h1''))\<lparr>m_id := ''h1''\<rparr>, (memberOf [] ''c'' HALF (Some ''h2''))\<lparr>m_id := ''h2''\<rparr>]"
  by (simp add: example_defs engine_op_defs state_updateStateAndHistory addCommittee_upd_def
        addMember_upd_def addMember_pairing_def truthy_def Let_def)

theorem calculateDuration_counts_witness:
  "calculateDuration ''c'' (members (updateMember_upd walkEdit walkState)) = 3
   \<and> deriveDuration ''c'' (members (updateMember_upd walkEdit walkState)) = 3
   \<and> calculateDuration ''c''
        (filter (\<lambda>x. x \<noteq> (memberOf [] ''c'' HALF (Some ''h1''))\<lparr>m_id := ''h1''\<rparr>) (members walkState)) = 2
   \<and> calculateDuration ''c'' (members walkState) = 2
   \<and> calculateDuration ''zz'' (members walkState) = 0
   \<and> deriveDuration ''c'' (members (state (mutations (walkOps @ [UpdateMember walkEdit]) engine0))) = 3"
proof -
  let ?m = "(memberOf [] ''c'' HALF (Some ''h1''))\<lparr>m_id := ''h1''\<rparr>"
  let ?ms' = "members (updateMember_upd walkEdit walkState)"
  have ms': "?ms'
            = [(memberOf [] ''c'' FULL None)\<lparr>m_id := ''f1''\<rparr>, (memberOf [] ''c'' FULL None)\<lparr>m_id := ''f2''\<rparr>,
               (memberOf [] ''c'' HALF (Some ''h1''))\<lparr>m_id := ''h1''\<rparr>, memberOf ''h2'' ''c'' HALF (Some ''h1'')]"
    by (simp add: walkState_members walkEdit_def memberOf_def member_op_defs Let_def)
  have end': "members (state (mutations (walkOps @ [UpdateMember walkEdit]) engine0)) = ?ms'"
    by (simp add: mutations_snoc updateMember_def state_updateStateAndHistory walkState_def)
  have keys: "recordKey ''h1''" "recordKey ''h2''" "recordKey ''f1''" "recordKey ''f2''"
    "recordKey ''c''"
    by (simp_all add: recordKey_def objectPrototypeKeys_def)
  have k1: "list_all keyedPair
      (filter (\<lambda>m. shareType m = HALF) (filter (\<lambda>m. m_committeeId m = ''c'') ?ms'))"
    unfolding ms' by (simp add: memberOf_def keyedPair_def keys)
  have k2: "list_all keyedPair
      (filter (\<lambda>m. shareType m = HALF) (filter (\<lambda>m. m_committeeId m = ''c'') (members walkState)))"
    unfolding walkState_members by (simp add: memberOf_def keyedPair_def keys)
  have lone: "shareType ?m = HALF
      \<and> length (filter (\<lambda>x. pairId x = pairId ?m)
           (filter (\<lambda>m. shareType m = HALF)
              (filter (\<lambda>m. m_committeeId m = ''c'') (members walkState)))) \<le> 1"
    unfolding walkState_members by (simp add: memberOf_def)
  have none: "filter (\<lambda>m. m_committeeId m = ''zz'') (members walkState) = []"
    unfolding walkState_members by (simp add: memberOf_def)
  have wk: "wellKeyed (members (state engine0))
            \<and> list_all freshKey (walkOps @ [UpdateMember walkEdit])"
    by (simp add: engine0_def emptyState_def wellKeyed_def walkOps_def freshKey_def keys)
  have d1: "deriveDuration ''c'' ?ms' = 3"
    unfolding ms' by (simp add: deriveDuration_def completePairs_def memberOf_def)
  have d2: "deriveDuration ''c'' (members walkState) = 2"
    unfolding walkState_members by (simp add: deriveDuration_def completePairs_def memberOf_def)
  note t1 = calculateDuration_counts [of "''c''" ?ms' ?m engine0 "walkOps @ [UpdateMember walkEdit]"]
  note t2 = calculateDuration_counts [of "''c''" "members walkState" ?m engine0 "[]"]
  note t3 = calculateDuration_counts [of "''zz''" "members walkState" ?m engine0 "[]"]
  from t1 k1 d1 have c1: "calculateDuration ''c'' ?ms' = 3" by simp
  from t2 k2 d2 have c2: "calculateDuration ''c'' (members walkState) = 2" by simp
  from t2 k2 lone c2
  have c3: "calculateDuration ''c'' (filter (\<lambda>x. x \<noteq> ?m) (members walkState)) = 2" by simp
  from t3 none have c4: "calculateDuration ''zz'' (members walkState) = 0" by simp
  from t1 wk c1 have c5:
    "deriveDuration ''c'' (members (state (mutations (walkOps @ [UpdateMember walkEdit]) engine0))) = 3"
    unfolding end' by simp
  from c1 d1 c3 c2 c4 c5 show ?thesis by (intro conjI)
qed

subsection \<open>Late days and demerit points\<close>













lemma floor_rat_numeral:
  "\<lfloor>numeral a / numeral b :: rat\<rfloor> = numeral a div numeral b"
  by (metis floor_divide_of_int_eq of_int_numeral)

lemmas Number_defs =
  Number_js_def trimString_def StrWhiteSpaceChar_def NonDecimalIntegerLiteral_def
  StrDecimalLiteral_def StrUnsignedDecimalLiteral_def ExponentPart_def DecimalDigit_def
  digit_of_def negate_def minus_one_def ToIntegerOrInfinity_def
  roundToDouble_def floorLog2_def roundTiesToEven_def pow2_def pow10_def Let_def
  bitLength.simps floor_rat_numeral

text \<open>\<open>Number\<close> on some strings, and \<open>month - 1\<close> on a month that is not a month number.\<close>

lemma Number_js_examples:
  "Number_js ''2024'' = Finite 2024"
  "Number_js ''03'' = Finite 3"
  "Number_js [] = Finite 0"
  "Number_js ''11 '' = Finite 11"
  "Number_js [CHR 0x09, CHR ''7'', CHR 0x0A] = Finite 7"
  "Number_js ''+7.5'' = Finite (15 / 2)"
  "Number_js ''.5'' = Finite (1 / 2)"
  "Number_js ''5.'' = Finite 5"
  "Number_js ''1e3'' = Finite 1000"
  "Number_js ''0x1F'' = Finite 31"
  "Number_js ''0b101'' = Finite 5"
  "Number_js ''0.1'' = Finite (3602879701896397 / 2 ^ 55)"
  "Number_js ''99.99999999999999999999'' = Finite 100"
  "Number_js ''9007199254740993'' = Finite 9007199254740992"
  "Number_js ''Infinity'' = Infinity"
  "Number_js ''1 2'' = NaN"
  "Number_js ''12abc'' = NaN"
  "Number_js ''.'' = NaN"
  "Number_js ''0x'' = NaN"
  "Number_js ''1e'' = NaN"
  "Number_js ''+0x10'' = NaN"
  "Number_js ''1_000'' = NaN"
  "minus_one (Number_js ''0.0000000000000000000000001'') = Finite (- 1)"
  "ToIntegerOrInfinity (15 / 2) = 7"
  by (simp_all add: Number_defs)







end
